theory Spec2Isabelle
  imports Main "HOL-Library.Word" "HOL-Library.Sublist"
begin

section \<open>JavaScript values and errors\<close>

text \<open>
  The server side of soya (class \<open>Application\<close>) and the data component wrapper
  (\<open>connect\<close>) are embedded as functions over explicit state. A thrown exception is a
  value: a function that may throw returns \<open>error option \<times> state\<close>, where \<open>Some e\<close>
  means that \<open>e\<close> was thrown after the state changes made so far.
\<close>

datatype error = Error string | TypeError string

text \<open>
  A value a promise can reject with. \<open>VError\<close> is any object that is
  \<open>instanceof Error\<close>, \<open>VString\<close> a primitive string. A number carries its decimal
  rendering, an object the outcome of its conversion to a string (its \<open>toString\<close> may
  be missing or may throw).
\<close>

datatype jsval =
    VError error
  | VString string
  | VUndefined
  | VNull
  | VBool bool
  | VNumber string
  | VSymbol string
  | VObject "error + string"

text \<open>
  The conversion \<open>'' + v\<close> of the language: a symbol cannot be converted and raises a
  \<open>TypeError\<close>; an object answers with what its own conversion does.
\<close>

fun toString :: "jsval \<Rightarrow> error + string" where
  "toString (VError (Error m)) = Inr (''Error: '' @ m)"
| "toString (VError (TypeError m)) = Inr (''TypeError: '' @ m)"
| "toString (VString s) = Inr s"
| "toString VUndefined = Inr ''undefined''"
| "toString VNull = Inr ''null''"
| "toString (VBool b) = Inr (if b then ''true'' else ''false'')"
| "toString (VNumber r) = Inr r"
| "toString (VSymbol d) = Inl (TypeError ''Cannot convert a Symbol value to a string'')"
| "toString (VObject r) = r"

text \<open>
  \<open>Application._ensureError\<close>: an Error is returned as it is, a string becomes the
  message of a new Error, anything else is appended to a fixed message. The
  concatenation is where the conversion can throw.
\<close>

fun ensureError :: "jsval \<Rightarrow> error + error" where
  "ensureError (VError e) = Inr e"
| "ensureError (VString s) = Inr (Error s)"
| "ensureError v =
     (case toString v of
        Inl exn \<Rightarrow> Inl exn
      | Inr s \<Rightarrow> Inr (Error (''Error when resolving store promise! Unable to convert reject arg: '' @ s)))"

fun message :: "error \<Rightarrow> string" where
  "message (Error m) = m"
| "message (TypeError m) = m"

section \<open>The response, and what one request leaves behind\<close>

text \<open>
  Strings that are sent as a body are sequences of UTF-16 code units, as in the language.
  \<open>byteLength\<close> is \<open>Buffer.byteLength(s, 'utf8')\<close> of the platform: one to three bytes
  for a code unit, four for a surrogate pair, three for a lone surrogate (it is encoded
  as U+FFFD).
\<close>

type_synonym js_string = "16 word list"

fun byteLength :: "js_string \<Rightarrow> nat" where
  "byteLength [] = 0"
| "byteLength (c # cs) =
     (if c < 0x80 then 1 + byteLength cs
      else if c < 0x800 then 2 + byteLength cs
      else if 0xD800 \<le> c \<and> c \<le> 0xDBFF then
        (case cs of
           [] \<Rightarrow> 3
         | d # ds \<Rightarrow>
             if 0xDC00 \<le> d \<and> d \<le> 0xDFFF then 4 + byteLength ds else 3 + byteLength cs)
      else 3 + byteLength cs)"

datatype header_value = HNum nat | HStr string | HList "string list"

text \<open>
  The platform's response object. Header names are case-insensitive: \<open>setHeader\<close> files
  a value under the lower-cased name, and refuses once the headers are sent.
\<close>

record response =
  statusCode :: nat
  statusMessage :: string
  headers :: "string \<rightharpoonup> header_value"
  headersSent :: bool
  body :: "js_string option"

definition lower_char :: "char \<Rightarrow> char" where
  "lower_char c =
     (let n = (of_char c :: nat) in if 65 \<le> n \<and> n \<le> 90 then char_of (n + 32) else c)"

definition toLowerCase :: "string \<Rightarrow> string" where
  "toLowerCase s = map lower_char s"

definition setHeader :: "string \<Rightarrow> header_value \<Rightarrow> response \<Rightarrow> error + response" where
  "setHeader name v r =
     (if headersSent r then Inl (Error ''Can't set headers after they are sent.'')
      else Inr (r\<lparr>headers := (headers r)(toLowerCase name \<mapsto> v)\<rparr>))"

definition end_response :: "js_string \<Rightarrow> response \<Rightarrow> response" where
  "end_response html r = r\<lparr>headersSent := True, body := Some html\<rparr>"

datatype pass = Discovery | Final

text \<open>
  What is observed of one request: the calls made on the store and on the content
  renderer, the handlers of the middleware chain that were invoked (by position), and the
  calls made on the error handler. \<open>UnhandledRejection\<close> is an error thrown inside the
  last callback of the promise chain, which no one receives. The state of one request is
  the response, whether the store's \<open>hydrate()\<close> promise has resolved, and the calls so
  far.
\<close>

datatype 's event =
    Invoke nat
  | StartRender
  | EndRender
  | Render pass "'s option"
  | Hydrate
  | GetState
  | ResponseNotSentError error
  | ResponseSentError error
  | UnhandledRejection error

record 's world =
  resp :: response
  hydrated :: bool
  trace :: "'s event list"

definition emit :: "'s event \<Rightarrow> 's world \<Rightarrow> 's world" where
  "emit e w = w\<lparr>trace := trace w @ [e]\<rparr>"

text \<open>\<open>Application.handleError\<close>: which handler is called depends on \<open>headersSent\<close> alone.\<close>

definition handleError :: "error \<Rightarrow> 's world \<Rightarrow> 's world" where
  "handleError err w =
     (if headersSent (resp w) then emit (ResponseSentError err) w
      else emit (ResponseNotSentError err) w)"

section \<open>Collaborators of the application\<close>

text \<open>
  The store, the page, the router and the compiler are not part of the application; each
  is modelled by what the application calls on it. A store answers
  \<open>_shouldRenderBeforeServerHydration()\<close>, returns from \<open>hydrate()\<close> a promise that
  resolves, rejects with some value or never settles, and \<open>_getState()\<close> returns a
  snapshot that depends on whether that promise has resolved.
\<close>

datatype settle = Resolves | Rejects jsval | Never

record 's store =
  shouldRenderBeforeServerHydration :: bool
  hydrate :: settle
  getState :: "bool \<Rightarrow> 's"

type_synonym route_args = "(string \<times> string) list"
type_synonym routes = "string \<rightharpoonup> string"
type_synonym client_config = "(string \<times> string) list"
type_synonym page_dep = "string list"

text \<open>
  A render result: \<open>httpHeaders\<close> is what \<open>httpHeaders.getAll()\<close> enumerates, in order;
  \<open>contentRenderer\<close> is \<open>contentRenderer.render\<close>, which returns the HTML or throws.
\<close>

record 's renderResult =
  httpStatusCode :: nat
  httpStatusMessage :: string
  httpHeaders :: "(string \<times> header_value) list"
  contentRenderer ::
    "route_args \<Rightarrow> routes option \<Rightarrow> client_config \<Rightarrow> 's option \<Rightarrow> page_dep \<Rightarrow> error + js_string"

record routeResult =
  pageName :: string
  routeArgs :: route_args
  componentName :: string

record request =
  req_method :: string
  req_url :: string

text \<open>
  A page instance of one request: the store it creates (none for a static page), what
  \<open>render\<close> does (throw, or call back once with a render result), and what the
  request's cookie jar generates once rendering is over.
\<close>

record 's page =
  createStore :: "'s store option"
  render :: "route_args \<Rightarrow> error + 's renderResult"
  cookieValues :: "string list"

text \<open>
  A handler of the middleware chain. A compiler's handler is the sequence of things it
  does with \<open>(request, response, next)\<close>: write a response, call \<open>next\<close>, throw.
  The last handler is the application's own \<open>handle\<close>.
\<close>

datatype action = SendResponse | Proceed | Throw error

datatype middleware = Compiler_mw "request \<Rightarrow> action list" | Soya_handle

record 's app =
  router :: "request \<Rightarrow> routeResult option"
  pageClasses :: "string \<rightharpoonup> (request \<Rightarrow> 's page)"
  routeForPages :: "string \<rightharpoonup> routes"
  compileResult_pages :: "string \<rightharpoonup> page_dep"
  clientConfig :: client_config
  middlewares :: "middleware list"
  serverCreated :: bool
  port :: nat
  favicon :: "js_string option"
  servers :: "nat list"

section \<open>Rendering and hydration of one request\<close>

fun setHeaders :: "(string \<times> header_value) list \<Rightarrow> response \<Rightarrow> error + response" where
  "setHeaders [] r = Inr r"
| "setHeaders ((k, v) # kvs) r =
     (case setHeader k v r of Inl e \<Rightarrow> Inl e | Inr r' \<Rightarrow> setHeaders kvs r')"

text \<open>
  \<open>storeResolve\<close>, the callback of the resolved promise: read the state, render for
  real, then write status, headers, cookies and body. An exception leaves the response
  as it was when it was thrown.
\<close>

definition storeResolve ::
  "'s app \<Rightarrow> routeResult \<Rightarrow> 's store option \<Rightarrow> string list \<Rightarrow> 's renderResult \<Rightarrow> page_dep \<Rightarrow>
   's world \<Rightarrow> error option \<times> 's world" where
  "storeResolve app rr store cookies res pageDep w =
     (let (state, w1) =
        (case store of
           None \<Rightarrow> (None, w)
         | Some s \<Rightarrow> (Some (getState s (hydrated w)), emit StartRender (emit GetState w)));
        w2 = emit (Render Final state) w1
      in case contentRenderer res (routeArgs rr) (routeForPages app (pageName rr))
                (clientConfig app) state pageDep of
           Inl e \<Rightarrow> (Some e, w2)
         | Inr htmlResult \<Rightarrow>
             (let w3 = (if store \<noteq> None then emit EndRender w2 else w2);
                  r1 = (resp w3)\<lparr>statusCode := httpStatusCode res,
                                  statusMessage := httpStatusMessage res\<rparr>;
                  thrown = (\<lambda>e. (Some e, w3\<lparr>resp := r1\<rparr>))
              in case setHeader ''Content-Length'' (HNum (byteLength htmlResult)) r1 of
                   Inl e \<Rightarrow> thrown e
                 | Inr r2 \<Rightarrow>
              (case setHeader ''Content-Type'' (HStr ''text/html;charset=UTF-8'') r2 of
                   Inl e \<Rightarrow> thrown e
                 | Inr r3 \<Rightarrow>
              (case setHeaders (httpHeaders res) r3 of
                   Inl e \<Rightarrow> thrown e
                 | Inr r4 \<Rightarrow>
              (case (if cookies \<noteq> [] then setHeader ''Set-Cookie'' (HList cookies) r4
                     else Inr r4) of
                   Inl e \<Rightarrow> thrown e
                 | Inr r5 \<Rightarrow> (None, w3\<lparr>resp := end_response htmlResult r5\<rparr>))))))"

text \<open>\<open>handlePromiseError\<close>, the callback of the rejected promise.\<close>

definition handlePromiseError :: "jsval \<Rightarrow> 's world \<Rightarrow> 's world" where
  "handlePromiseError v w =
     (case ensureError v of
        Inl exn \<Rightarrow> emit (UnhandledRejection exn) w
      | Inr err \<Rightarrow> handleError err w)"

text \<open>
  \<open>promise.then(storeResolve).catch(handlePromiseError)\<close>: a rejection, and an
  exception of \<open>storeResolve\<close>, go to \<open>handlePromiseError\<close>.
\<close>

definition then_catch ::
  "settle \<Rightarrow> ('s world \<Rightarrow> error option \<times> 's world) \<Rightarrow> 's world \<Rightarrow> 's world" where
  "then_catch promise resolve w =
     (case promise of
        Never \<Rightarrow> w
      | Rejects v \<Rightarrow> handlePromiseError v w
      | Resolves \<Rightarrow>
          (case resolve w of
             (None, w') \<Rightarrow> w'
           | (Some e, w') \<Rightarrow> handlePromiseError (VError e) w'))"

text \<open>
  \<open>Application._handleRenderResult\<close>. What it throws itself (an unknown entry point, an
  exception of the discovery render) leaves through the caller; the rest happens in the
  promise's callbacks.
\<close>

definition handleRenderResult ::
  "'s app \<Rightarrow> routeResult \<Rightarrow> 's store option \<Rightarrow> string list \<Rightarrow> 's renderResult \<Rightarrow>
   's world \<Rightarrow> error option \<times> 's world" where
  "handleRenderResult app rr store cookies res w =
     (case compileResult_pages app (pageName rr) of
        None \<Rightarrow>
          (Some (Error (''Unable to render page server side, dependencies unknown for entry point: ''
                        @ componentName rr)), w)
      | Some pageDep \<Rightarrow>
          (case store of
             None \<Rightarrow> (None, then_catch Resolves (storeResolve app rr store cookies res pageDep) w)
           | Some s \<Rightarrow>
               (let (thrown, w1) =
                  (if shouldRenderBeforeServerHydration s then
                     (let w' = emit (Render Discovery None) (emit StartRender w)
                      in case contentRenderer res (routeArgs rr) (routeForPages app (pageName rr))
                                (clientConfig app) None pageDep of
                           Inl e \<Rightarrow> (Some e, w')
                         | Inr _ \<Rightarrow> (None, emit EndRender w'))
                   else (None, w))
                in case thrown of
                     Some e \<Rightarrow> (Some e, w1)
                   | None \<Rightarrow>
                       (None,
                        then_catch (hydrate s)
                          (\<lambda>w. storeResolve app rr store cookies res pageDep (w\<lparr>hydrated := True\<rparr>))
                          (emit Hydrate w1)))))"

text \<open>\<open>Application.handle\<close>, the last handler of the chain.\<close>

definition handle :: "'s app \<Rightarrow> request \<Rightarrow> 's world \<Rightarrow> error option \<times> 's world" where
  "handle app req w =
     (case router app req of
        None \<Rightarrow> (Some (Error ''Unable to route request, router returned null''), w)
      | Some rr \<Rightarrow>
          (case pageClasses app (pageName rr) of
             None \<Rightarrow>
               (Some (Error (''Unable to route request, page '' @ pageName rr @ '' doesn't exist'')), w)
           | Some pageClass \<Rightarrow>
               (let page = pageClass req;
                    store = createStore page
                in case render page (routeArgs rr) of
                     Inl e \<Rightarrow> (Some e, w)
                   | Inr res \<Rightarrow> handleRenderResult app rr store (cookieValues page) res w)))"

section \<open>The middleware chain and the server\<close>

text \<open>
  The request callback of \<open>createServer\<close> keeps one counter \<open>index\<close> and a function
  \<open>runMiddleware\<close> that takes the handler at \<open>index\<close>, increments \<open>index\<close>, returns when
  there is no handler, and calls the handler with itself as \<open>next\<close>. A handler may call
  \<open>next\<close> any number of times, and goes on after the call returns: \<open>run_chain\<close> runs the
  handlers with their call stack, a frame being what a handler still has to do.
  \<open>Proceed\<close> on top of a frame is one call of \<open>runMiddleware\<close>. An exception leaves
  every frame.
\<close>

fun cost :: "request \<Rightarrow> middleware \<Rightarrow> nat" where
  "cost req (Compiler_mw f) = length (f req) + 2"
| "cost req Soya_handle = 1"

function (sequential) run_chain ::
  "'s app \<Rightarrow> request \<Rightarrow> action list list \<Rightarrow> nat \<Rightarrow> 's world \<Rightarrow> error option \<times> 's world" where
  "run_chain app req [] index w = (None, w)"
| "run_chain app req ([] # stack) index w = run_chain app req stack index w"
| "run_chain app req ((SendResponse # acts) # stack) index w =
     run_chain app req (acts # stack) index (w\<lparr>resp := (resp w)\<lparr>headersSent := True\<rparr>\<rparr>)"
| "run_chain app req ((Throw e # acts) # stack) index w = (Some e, w)"
| "run_chain app req ((Proceed # acts) # stack) index w =
     (if index < length (middlewares app) then
        (case middlewares app ! index of
           Compiler_mw f \<Rightarrow>
             run_chain app req (f req # acts # stack) (Suc index) (emit (Invoke index) w)
         | Soya_handle \<Rightarrow>
             (case handle app req (emit (Invoke index) w) of
                (Some e, w') \<Rightarrow> (Some e, w')
              | (None, w') \<Rightarrow> run_chain app req (acts # stack) (Suc index) w'))
      else run_chain app req (acts # stack) (Suc index) w)"
  by pat_completeness auto
termination
  apply (relation "measure (\<lambda>(app, req, stack, index, w).
           sum_list (map (\<lambda>fr. Suc (length fr)) stack)
           + sum_list (map (cost req) (drop index (middlewares app))))")
  apply (auto simp: Cons_nth_drop_Suc[symmetric])
  done

text \<open>The first call, \<open>runMiddleware()\<close> with \<open>index = 0\<close>.\<close>

definition runMiddleware :: "'s app \<Rightarrow> request \<Rightarrow> 's world \<Rightarrow> error option \<times> 's world" where
  "runMiddleware app req w = run_chain app req [[Proceed]] 0 w"

text \<open>
  The domain of a request: an exception that leaves the code run inside it is given to
  \<open>handleError\<close>.
\<close>

definition domain_run ::
  "('s world \<Rightarrow> error option \<times> 's world) \<Rightarrow> 's world \<Rightarrow> 's world" where
  "domain_run f w = (case f w of (None, w') \<Rightarrow> w' | (Some e, w') \<Rightarrow> handleError e w')"

definition requestListener :: "'s app \<Rightarrow> request \<Rightarrow> 's world \<Rightarrow> 's world" where
  "requestListener app req w =
     (if req_method req = ''GET'' \<and> req_url req = ''/favicon.ico'' \<and> favicon app \<noteq> None then
        w\<lparr>resp := (resp w)\<lparr>statusCode := 200,
                            headers := (headers (resp w))(''content-type'' \<mapsto> HStr ''image/x-icon''),
                            headersSent := True,
                            body := favicon app\<rparr>\<rparr>
      else domain_run (runMiddleware app req) w)"

text \<open>A response nothing has been written to, and a request nothing has happened in.\<close>

definition new_response :: response where
  "new_response =
     \<lparr>statusCode = 200, statusMessage = [], headers = Map.empty, headersSent = False, body = None\<rparr>"

definition new_world :: "'s world" where
  "new_world = \<lparr>resp = new_response, hydrated = False, trace = []\<rparr>"

subsection \<open>Construction, start, and the server\<close>

record 's pageComponent =
  pc_name :: string
  clazz :: "request \<Rightarrow> 's page"
  routeRequirements :: "string list option"

fun register_routes :: "string \<Rightarrow> routes \<Rightarrow> string list \<Rightarrow> routes \<Rightarrow> error + routes" where
  "register_routes name all_routes [] acc = Inr acc"
| "register_routes name all_routes (routeId # ids) acc =
     (case all_routes routeId of
        None \<Rightarrow>
          Inl (Error (''Page '' @ name @ '' has dependencies to unknown route: '' @ routeId @ ''.''))
      | Some r \<Rightarrow> register_routes name all_routes ids (acc(routeId \<mapsto> r)))"

fun register_pages :: "'s pageComponent list \<Rightarrow> routes \<Rightarrow> 's app \<Rightarrow> error + 's app" where
  "register_pages [] all_routes a = Inr a"
| "register_pages (pc # pcs) all_routes a =
     (case register_routes (pc_name pc) all_routes
             (case routeRequirements pc of None \<Rightarrow> [] | Some ids \<Rightarrow> ids) Map.empty of
        Inl e \<Rightarrow> Inl e
      | Inr rs \<Rightarrow>
          register_pages pcs all_routes
            (a\<lparr>pageClasses := (pageClasses a)(pc_name pc \<mapsto> clazz pc),
               routeForPages := (routeForPages a)(pc_name pc \<mapsto> rs)\<rparr>))"

text \<open>The constructor: no server yet, no middleware, every page component registered.\<close>

definition new_Application ::
  "'s pageComponent list \<Rightarrow> routes \<Rightarrow> (request \<Rightarrow> routeResult option) \<Rightarrow> client_config \<Rightarrow>
   nat \<Rightarrow> js_string option \<Rightarrow> error + 's app" where
  "new_Application pageComponents all_routes rt cfg prt fav =
     register_pages pageComponents all_routes
       \<lparr>router = rt, pageClasses = Map.empty, routeForPages = Map.empty,
        compileResult_pages = Map.empty, clientConfig = cfg, middlewares = [],
        serverCreated = False, port = prt, favicon = fav, servers = []\<rparr>"

text \<open>\<open>createServer\<close>: \<open>servers\<close> lists the ports of the servers that listen.\<close>

definition createServer :: "'s app \<Rightarrow> 's app" where
  "createServer a =
     (if serverCreated a then a
      else a\<lparr>serverCreated := True, servers := servers a @ [port a]\<rparr>)"

text \<open>
  \<open>start\<close>: with a precompiled dependency file the server is created at once; otherwise
  the compiler calls \<open>onCompiled\<close> when a compilation is done. Either way \<open>handle\<close> is
  pushed after the compiler's handlers.
\<close>

definition onCompiled :: "(string \<rightharpoonup> page_dep) \<Rightarrow> 's app \<Rightarrow> 's app" where
  "onCompiled compileResult a = createServer (a\<lparr>compileResult_pages := compileResult\<rparr>)"

definition start ::
  "(string \<rightharpoonup> page_dep) option \<Rightarrow> (request \<Rightarrow> action list) list \<Rightarrow> 's app \<Rightarrow> 's app" where
  "start precompiled compiler_middlewares a =
     (let a1 =
        (case precompiled of
           Some compileResult \<Rightarrow>
             createServer (a\<lparr>middlewares := map Compiler_mw compiler_middlewares,
                             compileResult_pages := compileResult\<rparr>)
         | None \<Rightarrow> a\<lparr>middlewares := map Compiler_mw compiler_middlewares\<rparr>)
      in a1\<lparr>middlewares := middlewares a1 @ [Soya_handle]\<rparr>)"

section \<open>The data component wrapper\<close>

text \<open>
  Modelled from the spec: the ReduxStore, whose code is not among the sources. It holds the
  active subscriptions; \<open>subscribe\<close> adds one and returns a reference with the current
  state of the query and a function that removes that subscription;
  \<open>unsubscribe(consumer)\<close> removes all subscriptions owned by the consumer. A
  subscription's callback is the one \<open>connect\<close> passes, which writes one slot of its
  owner's state: the model keeps the slot name.
\<close>

record 'q subscription =
  sub_id :: nat
  owner :: nat
  segmentId :: string
  query :: 'q
  slot :: string
  hydration :: string

record ('q, 'v) reduxStore =
  subscriptions :: "'q subscription list"
  nextId :: nat
  queryState :: "string \<Rightarrow> 'q \<Rightarrow> 'v"

definition store_subscribe ::
  "string \<Rightarrow> 'q \<Rightarrow> string \<Rightarrow> nat \<Rightarrow> string \<Rightarrow> ('q, 'v) reduxStore \<Rightarrow> nat \<times> ('q, 'v) reduxStore" where
  "store_subscribe seg q callback_slot component hyd st =
     (nextId st,
      st\<lparr>subscriptions := subscriptions st @
            [\<lparr>sub_id = nextId st, owner = component, segmentId = seg, query = q,
              slot = callback_slot, hydration = hyd\<rparr>],
         nextId := Suc (nextId st)\<rparr>)"

definition ref_unsubscribe :: "nat \<Rightarrow> ('q, 'v) reduxStore \<Rightarrow> ('q, 'v) reduxStore" where
  "ref_unsubscribe i st = st\<lparr>subscriptions := filter (\<lambda>s. sub_id s \<noteq> i) (subscriptions st)\<rparr>"

definition store_unsubscribe :: "nat \<Rightarrow> ('q, 'v) reduxStore \<Rightarrow> ('q, 'v) reduxStore" where
  "store_unsubscribe component st =
     st\<lparr>subscriptions := filter (\<lambda>s. owner s \<noteq> component) (subscriptions st)\<rparr>"

text \<open>
  The wrapper component that \<open>connect\<close> returns. \<open>soyaUnsubscribe\<close> is the object
  \<open>__soyaUnsubscribe\<close>, from slot names to unsubscribe functions (each named by the
  subscription it removes); \<open>unsubscribe_properties\<close> are the properties that
  \<open>subscribe\<close> sets on the function \<open>this.unsubscribe\<close>.
\<close>

datatype 'v prop_value =
    Given 'v
  | GetActionCreator
  | Context
  | Result "string \<rightharpoonup> 'v"
  | GetReduxStore
  | GetConfig

type_synonym 'v props = "string \<rightharpoonup> 'v prop_value"

record 'v component =
  cid :: nat
  props :: "'v props"
  state :: "string \<rightharpoonup> 'v"
  soyaUnsubscribe :: "string \<rightharpoonup> nat"
  unsubscribe_properties :: "string \<rightharpoonup> nat"

definition new_Component :: "nat \<Rightarrow> 'v props \<Rightarrow> 'v component" where
  "new_Component i p =
     \<lparr>cid = i, props = p, state = Map.empty, soyaUnsubscribe = Map.empty,
      unsubscribe_properties = Map.empty\<rparr>"

definition unsubscribe ::
  "string \<Rightarrow> 'v component \<times> ('q, 'v) reduxStore \<Rightarrow> 'v component \<times> ('q, 'v) reduxStore" where
  "unsubscribe stateName cs =
     (case cs of (c, st) \<Rightarrow>
        (case soyaUnsubscribe c stateName of
           None \<Rightarrow> (c, st)
         | Some i \<Rightarrow>
             (c\<lparr>soyaUnsubscribe := (soyaUnsubscribe c)(stateName := None)\<rparr>, ref_unsubscribe i st)))"

text \<open>One call \<open>subscribe(segmentId, query, stateName, hydration)\<close>.\<close>

type_synonym 'q subscribe_call = "string \<times> 'q \<times> string \<times> string"

definition subscribe ::
  "'v component \<times> ('q, 'v) reduxStore \<Rightarrow> 'q subscribe_call \<Rightarrow> 'v component \<times> ('q, 'v) reduxStore" where
  "subscribe cs call =
     (case call of (seg, q, stateName, hyd) \<Rightarrow>
        (case unsubscribe stateName cs of (c1, st1) \<Rightarrow>
           (case store_subscribe seg q stateName (cid c1) hyd st1 of (storeRef, st2) \<Rightarrow>
              (c1\<lparr>unsubscribe_properties := (unsubscribe_properties c1)(seg \<mapsto> storeRef),
                  state := (state c1)(stateName \<mapsto> queryState st2 seg q)\<rparr>,
               st2))))"

definition connectedProps :: "'v component \<Rightarrow> 'v props \<Rightarrow> 'v props" where
  "connectedProps c p =
     p(''getActionCreator'' \<mapsto> GetActionCreator,
       ''context'' \<mapsto> Context,
       ''result'' \<mapsto> Result (state c),
       ''getReduxStore'' \<mapsto> GetReduxStore,
       ''getConfig'' \<mapsto> GetConfig)"

text \<open>
  \<open>isEqualShallow\<close> comes from a helper module that is not among the sources; it is a
  parameter. \<open>connect\<close> takes the component's own \<open>shouldSubscriptionsUpdate\<close> when it
  is a function, and the default otherwise.
\<close>

definition defaultShouldSubcriptionsUpdate ::
  "('v props \<Rightarrow> 'v props \<Rightarrow> bool) \<Rightarrow> 'v props \<Rightarrow> 'v props \<Rightarrow> bool" where
  "defaultShouldSubcriptionsUpdate isEqualShallow prevProps nextProps =
     (\<not> isEqualShallow prevProps nextProps)"

definition connect_shouldSubscriptionsUpdate ::
  "('v props \<Rightarrow> 'v props \<Rightarrow> bool) \<Rightarrow> ('v props \<Rightarrow> 'v props \<Rightarrow> bool) option \<Rightarrow>
   'v props \<Rightarrow> 'v props \<Rightarrow> bool" where
  "connect_shouldSubscriptionsUpdate isEqualShallow own =
     (case own of Some f \<Rightarrow> f | None \<Rightarrow> defaultShouldSubcriptionsUpdate isEqualShallow)"

text \<open>
  \<open>componentWillReceiveProps\<close>. \<open>subscribeQueries\<close> is the component's declaration: the
  calls of \<open>subscribe\<close> it makes for given props, in order.
\<close>

definition componentWillReceiveProps ::
  "('v props \<Rightarrow> 'v props \<Rightarrow> bool) \<Rightarrow> ('v props \<Rightarrow> 'q subscribe_call list) \<Rightarrow> 'v props \<Rightarrow>
   'v component \<times> ('q, 'v) reduxStore \<Rightarrow> 'v component \<times> ('q, 'v) reduxStore" where
  "componentWillReceiveProps shouldSubscriptionsUpdate subscribeQueries nextProps cs =
     (case cs of (c, st) \<Rightarrow>
        (let connected = connectedProps c (props c);
             nextConnectedProps = connectedProps c nextProps
         in if shouldSubscriptionsUpdate connected nextConnectedProps then
              foldl subscribe (c, store_unsubscribe (cid c) st) (subscribeQueries nextConnectedProps)
            else (c, st)))"

definition componentWillUnmount ::
  "'v component \<times> ('q, 'v) reduxStore \<Rightarrow> 'v component \<times> ('q, 'v) reduxStore" where
  "componentWillUnmount cs = (case cs of (c, st) \<Rightarrow> (c, store_unsubscribe (cid c) st))"

text \<open>The subscriptions of a component that write a given slot.\<close>

definition active :: "nat \<Rightarrow> string \<Rightarrow> ('q, 'v) reduxStore \<Rightarrow> 'q subscription list" where
  "active component stateName st =
     filter (\<lambda>s. owner s = component \<and> slot s = stateName) (subscriptions st)"

section \<open>A small site\<close>

text \<open>
  One application for the concrete instances below: a page \<open>home\<close> with a store, a static
  page \<open>about\<close>, a route \<open>/ghost\<close> to a page that no one registered, one compiler
  handler that passes every request on. A page renders a dash without state, and
  an e with acute accent followed by the digit of the count with state.
\<close>

definition ex_html :: "nat option \<Rightarrow> js_string" where
  "ex_html st = (case st of None \<Rightarrow> [0x2D] | Some n \<Rightarrow> [0xE9, of_nat (48 + n)])"

definition ex_result :: "nat renderResult" where
  "ex_result =
     \<lparr>httpStatusCode = 200, httpStatusMessage = ''OK'',
      httpHeaders = [(''X-Powered-By'', HStr ''soya'')],
      contentRenderer = (\<lambda>args rts cfg st dep. Inr (ex_html st))\<rparr>"

definition ex_store :: "nat store" where
  "ex_store =
     \<lparr>shouldRenderBeforeServerHydration = True, hydrate = Resolves,
      getState = (\<lambda>h. if h then 1 else 0)\<rparr>"

definition ex_page :: "nat store option \<Rightarrow> request \<Rightarrow> nat page" where
  "ex_page st req = \<lparr>createStore = st, render = (\<lambda>args. Inr ex_result), cookieValues = []\<rparr>"

definition ex_route :: "string \<Rightarrow> routeResult" where
  "ex_route name = \<lparr>pageName = name, routeArgs = [], componentName = name\<rparr>"

definition ex_router :: "request \<Rightarrow> routeResult option" where
  "ex_router req =
     (if req_url req = ''/'' then Some (ex_route ''home'')
      else if req_url req = ''/about'' then Some (ex_route ''about'')
      else if req_url req = ''/ghost'' then Some (ex_route ''ghost'')
      else None)"

definition ex_req :: "string \<Rightarrow> request" where
  "ex_req url = \<lparr>req_method = ''GET'', req_url = url\<rparr>"

definition ex_app :: "nat app" where
  "ex_app =
     \<lparr>router = ex_router,
      pageClasses = [''home'' \<mapsto> ex_page (Some ex_store), ''about'' \<mapsto> ex_page None],
      routeForPages = [''home'' \<mapsto> Map.empty, ''about'' \<mapsto> Map.empty],
      compileResult_pages = [''home'' \<mapsto> [''home.js''], ''about'' \<mapsto> [''about.js'']],
      clientConfig = [],
      middlewares = [Compiler_mw (\<lambda>req. [Proceed]), Soya_handle],
      serverCreated = True, port = 8000, favicon = None, servers = [8000]\<rparr>"

definition ex_app_with :: "nat store \<Rightarrow> nat app" where
  "ex_app_with st =
     ex_app\<lparr>pageClasses := [''home'' \<mapsto> ex_page (Some st), ''about'' \<mapsto> ex_page None]\<rparr>"

text \<open>A render result whose own headers name the content type.\<close>

definition ex_json_result :: "nat renderResult" where
  "ex_json_result = ex_result\<lparr>httpHeaders := [(''Content-Type'', HStr ''application/json'')]\<rparr>"

text \<open>
  A chain whose first handler calls \<open>next\<close> twice and whose second handler does not call
  it.
\<close>

definition ex_chain_app :: "nat app" where
  "ex_chain_app =
     ex_app\<lparr>middlewares :=
       [Compiler_mw (\<lambda>req. [Proceed, Proceed]), Compiler_mw (\<lambda>req. []), Soya_handle]\<rparr>"

definition ex_json_app :: "nat app" where
  "ex_json_app =
     ex_app\<lparr>pageClasses :=
       [''about'' \<mapsto> (\<lambda>req. (ex_page None req)\<lparr>render := (\<lambda>args. Inr ex_json_result)\<rparr>)]\<rparr>"

text \<open>
  A store with no subscription, and a component that shows one user: it subscribes to the
  user named by its \<open>id\<close> prop, and its subscriptions are to be renewed when that prop
  changes.
\<close>

definition ex_redux :: "(nat, nat) reduxStore" where
  "ex_redux = \<lparr>subscriptions = [], nextId = 0, queryState = (\<lambda>seg q. q)\<rparr>"

definition ex_subscribeQueries :: "nat props \<Rightarrow> nat subscribe_call list" where
  "ex_subscribeQueries p =
     (case p ''id'' of Some (Given n) \<Rightarrow> [(''users'', n, ''user'', ''load'')] | _ \<Rightarrow> [])"

definition ex_shouldSubscriptionsUpdate :: "nat props \<Rightarrow> nat props \<Rightarrow> bool" where
  "ex_shouldSubscriptionsUpdate prevProps nextProps = (prevProps ''id'' \<noteq> nextProps ''id'')"

text \<open>The component with \<open>id\<close> 7 after its first subscription, as mounting leaves it.\<close>

definition ex_mounted :: "nat component \<times> (nat, nat) reduxStore" where
  "ex_mounted =
     foldl subscribe (new_Component 1 [''id'' \<mapsto> Given 7], ex_redux)
       (ex_subscribeQueries
          (connectedProps (new_Component 1 [''id'' \<mapsto> Given 7]) [''id'' \<mapsto> Given 7]))"

section \<open>Observations\<close>

text \<open>The calls on the store and on the content renderer, among the events of a request.\<close>

fun coordination :: "'s event \<Rightarrow> bool" where
  "coordination StartRender = True"
| "coordination EndRender = True"
| "coordination (Render p st) = True"
| "coordination Hydrate = True"
| "coordination GetState = True"
| "coordination _ = False"

text \<open>The headers of a render result under the names the response files them under.\<close>

definition lowered :: "(string \<times> header_value) list \<Rightarrow> (string \<times> header_value) list" where
  "lowered kvs = map (\<lambda>(k, v). (toLowerCase k, v)) kvs"

text \<open>The positions of the handlers that were invoked, in the order of their invocation.\<close>

fun invoked :: "'s event list \<Rightarrow> nat list" where
  "invoked [] = []"
| "invoked (Invoke i # t) = i # invoked t"
| "invoked (e # t) = invoked t"

text \<open>How many times a handler calls \<open>next\<close> for a request.\<close>

fun calls_next :: "request \<Rightarrow> middleware \<Rightarrow> nat" where
  "calls_next req (Compiler_mw f) = count_list (f req) Proceed"
| "calls_next req Soya_handle = 0"

text \<open>What a subscription was declared with: the arguments of the call of \<open>subscribe\<close>.\<close>

definition declared :: "'q subscription \<Rightarrow> 'q subscribe_call" where
  "declared s = (segmentId s, query s, slot s, hydration s)"

text \<open>The calls of \<open>next\<close> that the handlers on the call stack have still to make.\<close>

definition pending :: "action list list \<Rightarrow> nat" where
  "pending stack = sum_list (map (\<lambda>frame. count_list frame Proceed) stack)"

text \<open>
  Whether a handler gets to call \<open>next\<close>: its first call is not preceded by an
  exception. \<open>handle\<close> never calls it. For a call stack, whether the next thing that
  happens is a call of \<open>next\<close>, the frames that end without one returning to their
  callers.
\<close>

fun proceeds :: "action list \<Rightarrow> bool" where
  "proceeds [] = False"
| "proceeds (SendResponse # acts) = proceeds acts"
| "proceeds (Throw e # acts) = False"
| "proceeds (Proceed # acts) = True"

fun reaches_next :: "request \<Rightarrow> middleware \<Rightarrow> bool" where
  "reaches_next req (Compiler_mw f) = proceeds (f req)"
| "reaches_next req Soya_handle = False"

fun stack_proceeds :: "action list list \<Rightarrow> bool" where
  "stack_proceeds [] = False"
| "stack_proceeds ([] # stack) = stack_proceeds stack"
| "stack_proceeds ((SendResponse # acts) # stack) = stack_proceeds (acts # stack)"
| "stack_proceeds ((Throw e # acts) # stack) = False"
| "stack_proceeds ((Proceed # acts) # stack) = True"

text \<open>
  What a run of the chain from a call stack and an \<open>index\<close> does, \<open>k\<close> being the
  \<open>index\<close> after the last handler it invokes: the handlers from \<open>index\<close> to \<open>k\<close> are
  invoked in order; when the stack is about to call \<open>next\<close> and a handler is left, that
  handler is invoked; an invoked handler that gets to call \<open>next\<close> has the handler after
  it invoked; and when no handler calls \<open>next\<close> twice and the stack has at most one
  call to make, a handler is invoked only through that call and each invoked handler but
  the last has called \<open>next\<close>.
\<close>

definition chain_ok ::
  "'s app \<Rightarrow> request \<Rightarrow> action list list \<Rightarrow> nat \<Rightarrow> 's world \<Rightarrow> 's world \<Rightarrow> nat \<Rightarrow> bool" where
  "chain_ok app req stack index w w' k \<longleftrightarrow>
     index \<le> k \<and> (k \<le> length (middlewares app) \<or> k = index)
     \<and> invoked (trace w') = invoked (trace w) @ [index..<k]
     \<and> ((\<forall>m\<in>set (middlewares app). calls_next req m \<le> 1) \<and> pending stack \<le> 1 \<longrightarrow>
          (index < k \<longrightarrow> pending stack = 1)
          \<and> (\<forall>i. index \<le> i \<and> Suc i < k \<longrightarrow> calls_next req (middlewares app ! i) = 1))
     \<and> (stack_proceeds stack \<and> index < length (middlewares app) \<longrightarrow> index < k)
     \<and> (\<forall>i. index \<le> i \<and> i < k \<and> Suc i < length (middlewares app)
              \<and> reaches_next req (middlewares app ! i) \<longrightarrow> Suc i < k)"

text \<open>
  The UTF-8 encoding that the platform writes for a string: the bytes of each code point,
  a surrogate pair giving one code point and a lone surrogate the replacement character.
\<close>

definition encode_code_point :: "nat \<Rightarrow> 8 word list" where
  "encode_code_point n =
     (if n < 0x80 then [of_nat n]
      else if n < 0x800 then [of_nat (0xC0 + n div 64), of_nat (0x80 + n mod 64)]
      else if n < 0x10000 then
        [of_nat (0xE0 + n div 4096), of_nat (0x80 + n div 64 mod 64), of_nat (0x80 + n mod 64)]
      else
        [of_nat (0xF0 + n div 262144), of_nat (0x80 + n div 4096 mod 64),
         of_nat (0x80 + n div 64 mod 64), of_nat (0x80 + n mod 64)])"

definition pair_code_point :: "16 word \<Rightarrow> 16 word \<Rightarrow> nat" where
  "pair_code_point hi lo = 0x10000 + (unat hi - 0xD800) * 1024 + (unat lo - 0xDC00)"

fun utf8_encode :: "js_string \<Rightarrow> 8 word list" where
  "utf8_encode [] = []"
| "utf8_encode (c # cs) =
     (if 0xD800 \<le> c \<and> c \<le> 0xDBFF then
        (case cs of
           [] \<Rightarrow> encode_code_point 0xFFFD
         | d # ds \<Rightarrow>
             if 0xDC00 \<le> d \<and> d \<le> 0xDFFF then
               encode_code_point (pair_code_point c d) @ utf8_encode ds
             else encode_code_point 0xFFFD @ utf8_encode cs)
      else if 0xDC00 \<le> c \<and> c \<le> 0xDFFF then encode_code_point 0xFFFD @ utf8_encode cs
      else encode_code_point (unat c) @ utf8_encode cs)"

section \<open>The server is created once\<close>

lemma createServer_twice: "createServer (createServer a) = createServer a"
  by (simp add: createServer_def)

lemma onCompiled_after_created:
  "serverCreated a \<Longrightarrow> servers (onCompiled r a) = servers a \<and> serverCreated (onCompiled r a)"
  by (simp add: onCompiled_def createServer_def)

lemma servers_after_created:
  "serverCreated a \<Longrightarrow> servers (foldl (\<lambda>a r. onCompiled r a) a rs) = servers a"
  by (induction rs arbitrary: a) (simp_all add: onCompiled_after_created)

lemma register_pages_keeps:
  "register_pages pcs rts a = Inr a' \<Longrightarrow>
     serverCreated a' = serverCreated a \<and> servers a' = servers a \<and> port a' = port a
     \<and> middlewares a' = middlewares a"
  by (induction pcs arbitrary: a) (auto split: sum.splits)

lemma new_Application_fresh:
  "new_Application pcs rts rt cfg prt fav = Inr a \<Longrightarrow>
     \<not> serverCreated a \<and> servers a = [] \<and> port a = prt \<and> middlewares a = []"
  using register_pages_keeps[of pcs rts _ a] by (auto simp: new_Application_def)

lemma start_server:
  "servers (start precompiled cms a)
     = (case precompiled of None \<Rightarrow> servers a | Some r \<Rightarrow> servers (createServer a))
   \<and> serverCreated (start precompiled cms a) = (precompiled \<noteq> None \<or> serverCreated a)
   \<and> port (start precompiled cms a) = port a"
  by (cases precompiled) (simp_all add: start_def createServer_def Let_def)

lemma onCompiled_first:
  "\<not> serverCreated a \<Longrightarrow>
     servers (onCompiled r a) = servers a @ [port a] \<and> serverCreated (onCompiled r a)"
  by (simp add: onCompiled_def createServer_def)

lemma servers_of_fresh:
  assumes "\<not> serverCreated a" "servers a = []"
  shows "servers (foldl (\<lambda>a r. onCompiled r a) a rs) = (if rs = [] then [] else [port a])"
proof (cases rs)
  case Nil
  with assms show ?thesis by simp
next
  case (Cons r rs')
  have "servers (foldl (\<lambda>a r. onCompiled r a) (onCompiled r a) rs') = servers (onCompiled r a)"
    using onCompiled_first[OF assms(1)] by (intro servers_after_created) simp
  with Cons assms onCompiled_first[OF assms(1), of r] show ?thesis by simp
qed

lemma createServer_funpow: "(createServer ^^ Suc n) a = createServer a"
  by (induction n) (simp_all add: createServer_twice)

text \<open>
  C9. \<open>createServer\<close> is idempotent: any number of calls after the first leaves the
  application as the first call left it; the first call adds one listening server when
  \<open>_serverCreated\<close> was not set and none when it was; and however often the compiler
  reports a finished compilation afterwards, the servers stay the same. For an
  application as the constructor returns it, there is one server after any number of
  calls, one after \<open>start\<close> with a precompiled client, and after \<open>start\<close> without it
  none before the compiler has reported and one from then on.
\<close>

theorem createServer_idempotent:
  "(createServer ^^ Suc n) a = createServer a
   \<and> servers (createServer a) = (if serverCreated a then servers a else servers a @ [port a])
   \<and> servers (foldl (\<lambda>a r. onCompiled r a) (createServer a) rs) = servers (createServer a)
   \<and> (case new_Application pcs rts rt cfg prt fav of
         Inl e \<Rightarrow> True
       | Inr fresh \<Rightarrow>
           servers ((createServer ^^ Suc n) fresh) = [prt]
           \<and> servers (foldl (\<lambda>a r. onCompiled r a) (start None cms fresh) rs)
               = (if rs = [] then [] else [prt])
           \<and> servers (foldl (\<lambda>a r. onCompiled r a) (start (Some pre) cms fresh) rs) = [prt])"
proof (intro conjI)
  show "(createServer ^^ Suc n) a = createServer a"
    by (rule createServer_funpow)
  show "servers (createServer a) = (if serverCreated a then servers a else servers a @ [port a])"
    by (simp add: createServer_def)
  have "serverCreated (createServer a)"
    by (simp add: createServer_def)
  then show "servers (foldl (\<lambda>a r. onCompiled r a) (createServer a) rs) = servers (createServer a)"
    by (rule servers_after_created)
  show "case new_Application pcs rts rt cfg prt fav of
         Inl e \<Rightarrow> True
       | Inr fresh \<Rightarrow>
           servers ((createServer ^^ Suc n) fresh) = [prt]
           \<and> servers (foldl (\<lambda>a r. onCompiled r a) (start None cms fresh) rs)
               = (if rs = [] then [] else [prt])
           \<and> servers (foldl (\<lambda>a r. onCompiled r a) (start (Some pre) cms fresh) rs) = [prt]"
  proof (cases "new_Application pcs rts rt cfg prt fav")
    case (Inl e)
    then show ?thesis by simp
  next
    case (Inr fresh)
    note f = new_Application_fresh[OF Inr]
    have "(createServer ^^ Suc n) fresh = createServer fresh"
      by (rule createServer_funpow)
    then have one: "servers ((createServer ^^ Suc n) fresh) = [prt]"
      using f by (simp add: createServer_def del: funpow.simps)
    have two: "servers (foldl (\<lambda>a r. onCompiled r a) (start None cms fresh) rs)
                 = (if rs = [] then [] else [prt])"
      using servers_of_fresh[of "start None cms fresh" rs] f start_server[of None cms fresh]
      by simp
    have "serverCreated (start (Some pre) cms fresh)"
      using start_server[of "Some pre" cms fresh] by simp
    from servers_after_created[OF this, of rs]
    have three: "servers (foldl (\<lambda>a r. onCompiled r a) (start (Some pre) cms fresh) rs) = [prt]"
      using start_server[of "Some pre" cms fresh] f by (simp add: createServer_def)
    from one two three Inr show ?thesis by simp
  qed
qed

theorem createServer_idempotent_witness:
  "(case new_Application
           [\<lparr>pc_name = ''about'', clazz = ex_page None, routeRequirements = None\<rparr>]
           Map.empty ex_router [] 8000 None of
      Inl e \<Rightarrow> False
    | Inr fresh \<Rightarrow>
        servers ((createServer ^^ 3) fresh) = [8000]
        \<and> servers (foldl (\<lambda>a r. onCompiled r a) (start None [\<lambda>req. [Proceed]] fresh)
                     [Map.empty, Map.empty])
            = [8000])"
  using createServer_idempotent
    [where n = 2 and a = ex_app and rs = "[Map.empty, Map.empty]"
       and pcs = "[\<lparr>pc_name = ''about'', clazz = ex_page None, routeRequirements = None\<rparr>]"
       and rts = Map.empty and rt = ex_router and cfg = "[]" and prt = 8000 and fav = None
       and cms = "[\<lambda>req. [Proceed]]" and pre = Map.empty]
  by (simp add: new_Application_def numeral_3_eq_3 start_def onCompiled_def createServer_def)

section \<open>The middleware chain\<close>

text \<open>
  C10. When \<open>index\<close> is past the end of the list, a call of \<open>runMiddleware\<close> invokes
  nothing and throws nothing: the caller goes on with the request as it was (only
  \<open>index\<close> is incremented), and the first call of a request returns normally.
\<close>

theorem runMiddleware_past_end:
  "length (middlewares app) \<le> index \<Longrightarrow>
     run_chain app req ((Proceed # acts) # stack) index w
       = run_chain app req (acts # stack) (Suc index) w
     \<and> run_chain app req [[Proceed]] index w = (None, w)"
  by simp

theorem runMiddleware_past_end_witness:
  "length (middlewares ex_app) \<le> 2
   \<and> run_chain ex_app (ex_req ''/'') ((Proceed # [SendResponse]) # []) 2 new_world
       = run_chain ex_app (ex_req ''/'') ([SendResponse] # []) 3 new_world
   \<and> run_chain ex_app (ex_req ''/'') [[Proceed]] 2 (new_world :: nat world) = (None, new_world)"
proof -
  have len: "length (middlewares ex_app) \<le> 2"
    by (simp add: ex_app_def)
  show ?thesis
    using len runMiddleware_past_end [OF len, of "ex_req ''/''" "[SendResponse]" "[]" new_world]
    by (simp add: numeral_3_eq_3)
qed

section \<open>Errors of one request\<close>

lemma trace_emit [simp]: "trace (emit e w) = trace w @ [e]"
  by (simp add: emit_def)

lemma resp_emit [simp]: "resp (emit e w) = resp w"
  by (simp add: emit_def)

lemma hydrated_emit [simp]: "hydrated (emit e w) = hydrated w"
  by (simp add: emit_def)

lemmas ex_defs =
  ex_app_def ex_app_with_def ex_json_app_def ex_json_result_def ex_router_def ex_route_def ex_req_def ex_page_def ex_store_def
  ex_result_def ex_html_def new_world_def new_response_def

lemmas run_defs =
  requestListener_def domain_run_def runMiddleware_def handle_def handleRenderResult_def
  then_catch_def storeResolve_def handlePromiseError_def handleError_def emit_def
  setHeader_def end_response_def

lemma lower_names:
  "toLowerCase ''Content-Length'' = ''content-length''"
  "toLowerCase ''Content-Type'' = ''content-type''"
  "toLowerCase ''Set-Cookie'' = ''set-cookie''"
  "toLowerCase ''X-Powered-By'' = ''x-powered-by''"
  by code_simp+

text \<open>
  C2. When the router returns null, or the routed page name has no page class, \<open>handle\<close>
  throws before it does anything else. Wherever \<open>handle\<close> stands in the chain and
  whatever the handlers that called it still had to do, the exception leaves the chain,
  and the domain of the request gives it to the error handler: with no headers sent,
  \<open>responseNotSentError\<close> is called once, with that error, and nothing else happens.
\<close>

theorem fatal_routing_error:
  assumes route: "router app req = None
                  \<or> (\<exists>rr. router app req = Some rr \<and> pageClasses app (pageName rr) = None)"
    and idx: "index < length (middlewares app)" "middlewares app ! index = Soya_handle"
    and unsent: "\<not> headersSent (resp w)"
  shows "\<exists>e. e = (case router app req of
                   None \<Rightarrow> Error ''Unable to route request, router returned null''
                 | Some rr \<Rightarrow>
                     Error (''Unable to route request, page '' @ pageName rr @ '' doesn't exist''))
           \<and> handle app req w = (Some e, w)
           \<and> run_chain app req ((Proceed # acts) # stack) index w = (Some e, emit (Invoke index) w)
           \<and> domain_run (run_chain app req ((Proceed # acts) # stack) index) w
               = w\<lparr>trace := trace w @ [Invoke index, ResponseNotSentError e]\<rparr>"
  using assms
  by (auto simp: handle_def domain_run_def handleError_def emit_def)

theorem fatal_routing_error_witness:
  "router ex_app (ex_req ''/nowhere'') = None
   \<and> (1::nat) < length (middlewares ex_app) \<and> middlewares ex_app ! 1 = Soya_handle
   \<and> \<not> headersSent (resp (new_world :: nat world))
   \<and> handle ex_app (ex_req ''/nowhere'') new_world
       = (Some (Error ''Unable to route request, router returned null''), new_world)
   \<and> domain_run (run_chain ex_app (ex_req ''/nowhere'') [[Proceed]] 1) new_world
       = new_world\<lparr>trace :=
           [Invoke 1, ResponseNotSentError (Error ''Unable to route request, router returned null'')]\<rparr>"
proof -
  have route: "router ex_app (ex_req ''/nowhere'') = None
               \<or> (\<exists>rr. router ex_app (ex_req ''/nowhere'') = Some rr
                        \<and> pageClasses ex_app (pageName rr) = None)"
    by (simp add: ex_defs)
  have idx: "(1::nat) < length (middlewares ex_app)" "middlewares ex_app ! 1 = Soya_handle"
    by (simp_all add: ex_defs)
  have unsent: "\<not> headersSent (resp (new_world :: nat world))"
    by (simp add: ex_defs)
  have none: "router ex_app (ex_req ''/nowhere'') = None"
    by (simp add: ex_defs)
  show ?thesis
    using fatal_routing_error [OF route idx unsent, of "[]" "[]"] idx unsent none
    by (simp add: new_world_def)
qed

text \<open>Scenario A of the specification, from the request to the error handler.\<close>

lemma scenario_A:
  "requestListener ex_app (ex_req ''/nowhere'') new_world
     = new_world\<lparr>trace := [Invoke 0, Invoke 1,
         ResponseNotSentError (Error ''Unable to route request, router returned null'')]\<rparr>"
  by (simp add: ex_defs run_defs)

lemma unknown_page:
  "requestListener ex_app (ex_req ''/ghost'') new_world
     = new_world\<lparr>trace := [Invoke 0, Invoke 1,
         ResponseNotSentError (Error ''Unable to route request, page ghost doesn't exist'')]\<rparr>"
  by (simp add: ex_defs run_defs)

subsection \<open>Rejections of the store's promise\<close>

lemma handleError_trace:
  "trace (handleError e w)
     = trace w @ [if headersSent (resp w) then ResponseSentError e else ResponseNotSentError e]"
  by (simp add: handleError_def)

lemma handlePromiseError_trace:
  "\<exists>ev. trace (handlePromiseError v w) = trace w @ [ev] \<and> \<not> coordination ev"
  by (cases "ensureError v") (simp_all add: handlePromiseError_def handleError_trace)

lemma ensureError_passes_Error: "ensureError (VError e) = Inr e"
  by simp

lemma ensureError_string: "ensureError (VString s) = Inr (Error s) \<and> message (Error s) = s"
  by simp

lemma ensureError_convertible:
  assumes "toString v = Inr s" and "\<forall>e. v \<noteq> VError e" and "\<forall>t. v \<noteq> VString t"
  shows "ensureError v =
           Inr (Error (''Error when resolving store promise! Unable to convert reject arg: '' @ s))"
  using assms by (cases v) simp_all

lemma ensureError_throws:
  "ensureError (VSymbol d) = Inl (TypeError ''Cannot convert a Symbol value to a string'')"
  "ensureError (VObject (Inl e)) = Inl e"
  by simp_all

text \<open>After a rejection the callback of the resolved promise, and so the final render, is not run.\<close>

lemma rejection_skips_render:
  "then_catch (Rejects v) resolve w = handlePromiseError v w
   \<and> filter coordination (drop (length (trace w)) (trace (then_catch (Rejects v) resolve w))) = []"
proof -
  obtain ev where "trace (handlePromiseError v w) = trace w @ [ev]" "\<not> coordination ev"
    using handlePromiseError_trace by blast
  then show ?thesis by (simp add: then_catch_def)
qed

text \<open>Scenario C of the specification: a rejection with the string \<open>boom\<close>.\<close>

lemma scenario_C:
  "requestListener (ex_app_with (ex_store\<lparr>hydrate := Rejects (VString ''boom'')\<rparr>))
       (ex_req ''/'') new_world
     = new_world\<lparr>trace :=
         [Invoke 0, Invoke 1, StartRender, Render Discovery None, EndRender, Hydrate,
          ResponseNotSentError (Error ''boom'')]\<rparr>"
  by (simp add: ex_defs run_defs)

text \<open>
  C3. The claim holds for an Error, for a string and for every value that can be
  converted to a string, and the final render does not run after a rejection. It fails
  for a value that cannot be converted: when \<open>hydrate()\<close> rejects with a symbol, the
  concatenation in \<open>_ensureError\<close> throws a \<open>TypeError\<close> inside the callback of the
  rejection, \<open>handleError\<close> is not called, and the request ends with neither a response
  nor a call of the error handler.
\<close>

theorem rejection_with_symbol_unhandled:
  "requestListener (ex_app_with (ex_store\<lparr>hydrate := Rejects (VSymbol ''boom'')\<rparr>))
       (ex_req ''/'') new_world
     = new_world\<lparr>trace :=
         [Invoke 0, Invoke 1, StartRender, Render Discovery None, EndRender, Hydrate,
          UnhandledRejection (TypeError ''Cannot convert a Symbol value to a string'')]\<rparr>"
  by (simp add: ex_defs run_defs)

section \<open>The order of rendering and hydration\<close>

lemma storeResolve_store_trace:
  assumes "storeResolve app rr (Some s) cookies res dep w = (thrown, w')"
  shows "\<exists>tl. trace w' = trace w @ [GetState, StartRender, Render Final (Some (getState s (hydrated w)))] @ tl
              \<and> (tl = [] \<or> tl = [EndRender])"
  using assms
  by (auto simp: storeResolve_def Let_def split: sum.splits if_splits)

lemma storeResolve_static_trace:
  assumes "storeResolve app rr None cookies res dep w = (thrown, w')"
  shows "trace w' = trace w @ [Render Final None]"
  using assms
  by (auto simp: storeResolve_def Let_def split: sum.splits if_splits)

text \<open>What the callbacks of the promise of \<open>hydrate()\<close> add to the calls of a request.\<close>

lemma then_catch_store_trace:
  "\<exists>evs. trace (then_catch (hydrate s)
                   (\<lambda>w. storeResolve app rr (Some s) cookies res dep (w\<lparr>hydrated := True\<rparr>)) w)
            = trace w @ evs
         \<and> prefix (filter coordination evs)
              [GetState, StartRender, Render Final (Some (getState s True)), EndRender]
         \<and> (GetState \<in> set evs \<longrightarrow> hydrate s = Resolves)"
proof (cases "hydrate s")
  case Resolves
  obtain thrown w' where
    f: "storeResolve app rr (Some s) cookies res dep (w\<lparr>hydrated := True\<rparr>) = (thrown, w')"
    by (cases "storeResolve app rr (Some s) cookies res dep (w\<lparr>hydrated := True\<rparr>)")
  from storeResolve_store_trace[OF f] obtain tl where
    tl: "trace w' = trace w @ [GetState, StartRender, Render Final (Some (getState s True))] @ tl"
        "tl = [] \<or> tl = [EndRender]"
    by auto
  show ?thesis
  proof (cases thrown)
    case None
    with Resolves f tl show ?thesis by (auto simp: then_catch_def)
  next
    case (Some e)
    obtain ev where
      "trace (handlePromiseError (VError e) w') = trace w' @ [ev]" "\<not> coordination ev"
      using handlePromiseError_trace by blast
    with Resolves f Some tl show ?thesis by (auto simp: then_catch_def)
  qed
next
  case (Rejects v)
  obtain ev where "trace (handlePromiseError v w) = trace w @ [ev]" "\<not> coordination ev"
    using handlePromiseError_trace by blast
  with Rejects show ?thesis by (cases ev) (auto simp: then_catch_def)
next
  case Never
  then show ?thesis by (simp add: then_catch_def)
qed

text \<open>The calls of \<open>_handleRenderResult\<close> for a page with a store.\<close>

lemma handleRenderResult_store_trace:
  assumes run: "handleRenderResult app rr (Some s) cookies res w = (thrown, w')"
  shows "\<exists>new. trace w' = trace w @ new
           \<and> prefix (filter coordination new)
                ((if shouldRenderBeforeServerHydration s
                  then [StartRender, Render Discovery None, EndRender] else [])
                 @ [Hydrate, GetState, StartRender, Render Final (Some (getState s True)), EndRender])
           \<and> (GetState \<in> set new \<longrightarrow> hydrate s = Resolves)"
proof (cases "compileResult_pages app (pageName rr)")
  case None
  with run show ?thesis by (simp add: handleRenderResult_def)
next
  case (Some dep)
  let ?hydration = "\<lambda>w. then_catch (hydrate s)
        (\<lambda>w. storeResolve app rr (Some s) cookies res dep (w\<lparr>hydrated := True\<rparr>)) w"
  show ?thesis
  proof (cases "shouldRenderBeforeServerHydration s")
    case pre: True
    show ?thesis
    proof (cases "contentRenderer res (routeArgs rr) (routeForPages app (pageName rr))
                    (clientConfig app) None dep")
      case (Inl e)
      with Some pre run have "trace w' = trace w @ [StartRender, Render Discovery None]"
        by (auto simp: handleRenderResult_def)
      with pre show ?thesis by simp
    next
      case (Inr html)
      define w2 where
        "w2 = emit Hydrate (emit EndRender (emit (Render Discovery None) (emit StartRender w)))"
      from Some pre run Inr have w': "w' = ?hydration w2"
        by (auto simp: handleRenderResult_def w2_def)
      obtain evs where evs: "trace w' = trace w2 @ evs"
          "prefix (filter coordination evs)
             [GetState, StartRender, Render Final (Some (getState s True)), EndRender]"
          "GetState \<in> set evs \<longrightarrow> hydrate s = Resolves"
        using then_catch_store_trace[of s app rr cookies res dep w2] unfolding w' by blast
      let ?new = "[StartRender, Render Discovery None, EndRender, Hydrate] @ evs"
      have "trace w' = trace w @ ?new"
        using evs(1) by (simp add: w2_def)
      moreover have "prefix (filter coordination ?new)
          ([StartRender, Render Discovery None, EndRender]
           @ [Hydrate, GetState, StartRender, Render Final (Some (getState s True)), EndRender])"
        using evs(2) by simp
      moreover have "GetState \<in> set ?new \<longrightarrow> hydrate s = Resolves"
        using evs(3) by simp
      ultimately show ?thesis using pre by (simp only: if_True) blast
    qed
  next
    case False
    define w2 where "w2 = emit Hydrate w"
    from Some False run have w': "w' = ?hydration w2"
      by (auto simp: handleRenderResult_def w2_def)
    obtain evs where evs: "trace w' = trace w2 @ evs"
        "prefix (filter coordination evs)
           [GetState, StartRender, Render Final (Some (getState s True)), EndRender]"
        "GetState \<in> set evs \<longrightarrow> hydrate s = Resolves"
      using then_catch_store_trace[of s app rr cookies res dep w2] unfolding w' by blast
    have "trace w' = trace w @ (Hydrate # evs)"
      using evs(1) by (simp add: w2_def)
    moreover have "prefix (filter coordination (Hydrate # evs))
        ([] @ [Hydrate, GetState, StartRender, Render Final (Some (getState s True)), EndRender])"
      using evs(2) by simp
    moreover have "GetState \<in> set (Hydrate # evs) \<longrightarrow> hydrate s = Resolves"
      using evs(3) by simp
    ultimately show ?thesis using False by (simp only: if_False) blast
  qed
qed

text \<open>
  C4. For a store that asks for a render before hydration, the calls on the store and on
  the renderer are an initial part of one fixed sequence: the discovery render (between
  \<open>_startRender\<close> and \<open>_endRender\<close>, with no state) has returned when \<open>hydrate()\<close> is
  called; \<open>_getState()\<close> and the final render come after \<open>hydrate()\<close>, and only when
  its promise has resolved; the final render gets the state the store has after that.
\<close>

theorem hydration_order:
  assumes pre: "shouldRenderBeforeServerHydration s"
    and run: "handleRenderResult app rr (Some s) cookies res w = (thrown, w')"
  shows "\<exists>new. trace w' = trace w @ new
           \<and> prefix (filter coordination new)
                [StartRender, Render Discovery None, EndRender, Hydrate,
                 GetState, StartRender, Render Final (Some (getState s True)), EndRender]
           \<and> (GetState \<in> set new \<longrightarrow> hydrate s = Resolves)"
  using handleRenderResult_store_trace[OF run] pre by simp

theorem hydration_order_witness:
  "shouldRenderBeforeServerHydration ex_store
   \<and> handleRenderResult ex_app (ex_route ''home'') (Some ex_store) [] ex_result new_world
       = (None,
          \<lparr>resp = \<lparr>statusCode = 200, statusMessage = ''OK'',
                    headers = [''content-length'' \<mapsto> HNum 3,
                               ''content-type'' \<mapsto> HStr ''text/html;charset=UTF-8'',
                               ''x-powered-by'' \<mapsto> HStr ''soya''],
                    headersSent = True, body = Some [0xE9, 0x31]\<rparr>,
           hydrated = True,
           trace = [StartRender, Render Discovery None, EndRender, Hydrate,
                    GetState, StartRender, Render Final (Some (getState ex_store True)), EndRender]\<rparr>)
   \<and> hydrate ex_store = Resolves"
proof -
  have pre: "shouldRenderBeforeServerHydration ex_store"
    by (simp add: ex_defs)
  obtain thrown w' where
    run: "handleRenderResult ex_app (ex_route ''home'') (Some ex_store) [] ex_result new_world
            = (thrown, w')"
    by (cases "handleRenderResult ex_app (ex_route ''home'') (Some ex_store) [] ex_result
                 (new_world :: nat world)")
  show ?thesis
    using hydration_order [OF pre run] pre
    by (simp add: ex_defs run_defs lower_names)
qed

text \<open>
  C7. Without a store, the only call on the store or the renderer is the final render,
  with no state (and there is none when the page has no entry in the compile result,
  which is an error before any of this). With a store that does not ask for a render
  before hydration, no discovery render runs: the calls start with \<open>hydrate()\<close>.
\<close>

theorem static_page_skips_hydration:
  assumes run: "handleRenderResult app rr store cookies res w = (thrown, w')"
  shows "\<exists>new. trace w' = trace w @ new
           \<and> (store = None \<longrightarrow>
                filter coordination new =
                  (case compileResult_pages app (pageName rr) of
                     None \<Rightarrow> [] | Some dep \<Rightarrow> [Render Final None]))
           \<and> (\<forall>s. store = Some s \<and> \<not> shouldRenderBeforeServerHydration s \<longrightarrow>
                  (\<forall>x. Render Discovery x \<notin> set new)
                  \<and> prefix (filter coordination new)
                       [Hydrate, GetState, StartRender, Render Final (Some (getState s True)), EndRender])"
proof (cases store)
  case None
  show ?thesis
  proof (cases "compileResult_pages app (pageName rr)")
    case noDep: None
    with None run show ?thesis by (simp add: handleRenderResult_def)
  next
    case (Some dep)
    obtain thr w1 where f: "storeResolve app rr None cookies res dep w = (thr, w1)"
      by (cases "storeResolve app rr None cookies res dep w")
    have t1: "trace w1 = trace w @ [Render Final None]"
      by (rule storeResolve_static_trace[OF f])
    show ?thesis
    proof (cases thr)
      case noThrow: None
      with None Some run f t1 show ?thesis
        by (auto simp: handleRenderResult_def then_catch_def)
    next
      case thrown: (Some e)
      obtain ev where
        "trace (handlePromiseError (VError e) w1) = trace w1 @ [ev]" "\<not> coordination ev"
        using handlePromiseError_trace by blast
      with None Some thrown run f t1 show ?thesis
        by (auto simp: handleRenderResult_def then_catch_def)
    qed
  qed
next
  case (Some s)
  obtain new where new: "trace w' = trace w @ new"
      "prefix (filter coordination new)
         ((if shouldRenderBeforeServerHydration s
           then [StartRender, Render Discovery None, EndRender] else [])
          @ [Hydrate, GetState, StartRender, Render Final (Some (getState s True)), EndRender])"
    using handleRenderResult_store_trace[OF run[unfolded Some]] by blast
  have "Render Discovery x \<notin> set new" if "\<not> shouldRenderBeforeServerHydration s" for x
  proof
    assume "Render Discovery x \<in> set new"
    then have "Render Discovery x \<in> set (filter coordination new)" by simp
    with new(2) that
    have "Render Discovery x
            \<in> set [Hydrate, GetState, StartRender, Render Final (Some (getState s True)), EndRender]"
      using set_mono_prefix by fastforce
    then show False by simp
  qed
  with new Some show ?thesis by auto
qed

theorem static_page_skips_hydration_witness:
  "handleRenderResult ex_app (ex_route ''about'') None [] ex_result new_world
     = (None,
        \<lparr>resp = \<lparr>statusCode = 200, statusMessage = ''OK'',
                  headers = [''content-length'' \<mapsto> HNum 1,
                             ''content-type'' \<mapsto> HStr ''text/html;charset=UTF-8'',
                             ''x-powered-by'' \<mapsto> HStr ''soya''],
                  headersSent = True, body = Some [0x2D]\<rparr>,
         hydrated = False,
         trace = [Render Final None]\<rparr>)
   \<and> \<not> shouldRenderBeforeServerHydration (ex_store\<lparr>shouldRenderBeforeServerHydration := False\<rparr>)
   \<and> trace (snd (handleRenderResult ex_app (ex_route ''home'')
                    (Some (ex_store\<lparr>shouldRenderBeforeServerHydration := False\<rparr>)) []
                    ex_result new_world))
       = [Hydrate, GetState, StartRender, Render Final (Some 1), EndRender]"
proof -
  obtain thrown w' where
    run: "handleRenderResult ex_app (ex_route ''about'') None [] ex_result new_world = (thrown, w')"
    by (cases "handleRenderResult ex_app (ex_route ''about'') None [] ex_result
                 (new_world :: nat world)")
  show ?thesis
    using static_page_skips_hydration [OF run]
    by (simp add: ex_defs run_defs lower_names)
qed


section \<open>The response of a rendered page\<close>

lemma setHeader_Inr:
  "setHeader k v r = Inr r' \<Longrightarrow>
     \<not> headersSent r \<and> headers r' = (headers r)(toLowerCase k \<mapsto> v)
     \<and> headersSent r' = headersSent r \<and> body r' = body r
     \<and> statusCode r' = statusCode r \<and> statusMessage r' = statusMessage r"
  by (auto simp: setHeader_def split: if_splits)

lemma setHeaders_Inr:
  "setHeaders kvs r = Inr r' \<Longrightarrow>
     headers r' = headers r ++ map_of (rev (lowered kvs))
     \<and> headersSent r' = headersSent r \<and> body r' = body r
     \<and> statusCode r' = statusCode r \<and> statusMessage r' = statusMessage r"
proof (induction kvs arbitrary: r)
  case Nil
  then show ?case by (simp add: lowered_def)
next
  case (Cons kv kvs)
  obtain k v where kv: "kv = (k, v)" by (cases kv)
  from Cons.prems kv obtain r1 where
    r1: "setHeader k v r = Inr r1" and rest: "setHeaders kvs r1 = Inr r'"
    by (auto split: sum.splits)
  note h1 = setHeader_Inr[OF r1]
  have "(headers r)(toLowerCase k \<mapsto> v) ++ map_of (rev (lowered kvs))
          = headers r ++ map_of (rev (lowered ((k, v) # kvs)))"
    by (simp add: lowered_def fun_eq_iff map_add_def split: option.splits)
  then have "headers r' = headers r ++ map_of (rev (lowered (kv # kvs)))"
    using Cons.IH[OF rest] h1 unfolding kv by metis
  moreover have "headersSent r' = headersSent r \<and> body r' = body r
      \<and> statusCode r' = statusCode r \<and> statusMessage r' = statusMessage r"
    using Cons.IH[OF rest] h1 by metis
  ultimately show ?case by blast
qed

lemma map_add_absent:
  "name \<notin> fst ` set kvs \<Longrightarrow> (m ++ map_of (rev kvs)) name = m name"
  by (simp add: map_add_def map_of_eq_None_iff[THEN iffD2] split: option.splits)

lemma map_add_present:
  "name \<in> fst ` set kvs \<Longrightarrow> (m ++ map_of (rev kvs)) name = map_of (rev kvs) name"
  by (auto simp: map_add_def map_of_eq_None_iff split: option.splits)

text \<open>
  What \<open>storeResolve\<close> leaves in the response when it does not throw: the status of the
  render result, the body, and the headers in the order they were set, a later header of
  the same name replacing an earlier one.
\<close>

lemma storeResolve_success:
  assumes "storeResolve app rr store cookies res dep w = (None, w')"
  shows "\<exists>html. contentRenderer res (routeArgs rr) (routeForPages app (pageName rr))
                  (clientConfig app)
                  (case store of None \<Rightarrow> None | Some s \<Rightarrow> Some (getState s (hydrated w))) dep
                = Inr html
           \<and> body (resp w') = Some html \<and> headersSent (resp w')
           \<and> statusCode (resp w') = httpStatusCode res
           \<and> statusMessage (resp w') = httpStatusMessage res
           \<and> headers (resp w') =
               (let h = (headers (resp w))(''content-length'' \<mapsto> HNum (byteLength html),
                                            ''content-type'' \<mapsto> HStr ''text/html;charset=UTF-8'')
                        ++ map_of (rev (lowered (httpHeaders res)))
                in if cookies \<noteq> [] then h(''set-cookie'' \<mapsto> HList cookies) else h)"
  using assms
  by (auto simp: storeResolve_def Let_def end_response_def lower_names
           split: sum.splits if_splits option.splits
           dest!: setHeader_Inr setHeaders_Inr)


subsection \<open>The bytes of a body\<close>

lemma length_encode_code_point:
  "length (encode_code_point n)
     = (if n < 0x80 then 1 else if n < 0x800 then 2 else if n < 0x10000 then 3 else 4)"
  by (simp add: encode_code_point_def)

lemma unat_lt_65536: "unat (c :: 16 word) < 65536"
  using unsigned_less[of c, where ?'a=nat] by simp

lemma len_pair_code_point: "length (encode_code_point (pair_code_point hi lo)) = 4"
  by (simp add: pair_code_point_def length_encode_code_point)

lemma len_repl: "length (encode_code_point 0xFFFD) = 3"
  by (simp add: length_encode_code_point)

lemma len_unit:
  "length (encode_code_point (unat c)) = (if c < 0x80 then 1 else if c < 0x800 then 2 else 3)"
  for c :: "16 word"
  using unat_lt_65536[of c] by (simp add: length_encode_code_point word_less_nat_alt)

lemma low_not_surrogate:
  "c < 0x800 \<Longrightarrow> \<not> 0xD800 \<le> c \<and> \<not> 0xDC00 \<le> c" for c :: "16 word"
  by (simp add: word_less_nat_alt word_le_nat_alt)

lemma small_lt: "c < 0x80 \<Longrightarrow> c < 0x800" for c :: "16 word"
  by (simp add: word_less_nat_alt)

lemma high_not_small:
  "0xD800 \<le> c \<Longrightarrow> \<not> c < 0x80 \<and> \<not> c < 0x800" for c :: "16 word"
  using low_not_surrogate[of c] small_lt[of c] by blast

lemma byteLength_high:
  assumes "0xD800 \<le> c \<and> c \<le> 0xDBFF"
  shows "byteLength (c # cs) =
           (case cs of
              [] \<Rightarrow> 3
            | d # ds \<Rightarrow>
                if 0xDC00 \<le> d \<and> d \<le> 0xDFFF then 4 + byteLength ds else 3 + byteLength cs)"
  unfolding byteLength.simps(2)[of c cs]
  using assms high_not_small[of c] by (simp del: byteLength.simps)

lemma utf8_encode_high:
  assumes "0xD800 \<le> c \<and> c \<le> 0xDBFF"
  shows "utf8_encode (c # cs) =
           (case cs of
              [] \<Rightarrow> encode_code_point 0xFFFD
            | d # ds \<Rightarrow>
                if 0xDC00 \<le> d \<and> d \<le> 0xDFFF then
                  encode_code_point (pair_code_point c d) @ utf8_encode ds
                else encode_code_point 0xFFFD @ utf8_encode cs)"
  unfolding utf8_encode.simps(2)[of c cs]
  using assms by (simp del: utf8_encode.simps)

lemma byteLength_unit:
  assumes "\<not> (0xD800 \<le> c \<and> c \<le> 0xDBFF)"
  shows "byteLength (c # cs) = (if c < 0x80 then 1 else if c < 0x800 then 2 else 3) + byteLength cs"
  unfolding byteLength.simps(2)[of c cs] if_not_P[OF assms] by (simp del: byteLength.simps)

lemma utf8_encode_unit:
  assumes "\<not> (0xD800 \<le> c \<and> c \<le> 0xDBFF)"
  shows "length (utf8_encode (c # cs))
           = (if c < 0x80 then 1 else if c < 0x800 then 2 else 3) + length (utf8_encode cs)"
proof (cases "0xDC00 \<le> c \<and> c \<le> 0xDFFF")
  case True
  then have "\<not> c < 0x800" "\<not> c < 0x80"
    using low_not_surrogate[of c] small_lt[of c] by blast+
  then show ?thesis
    unfolding utf8_encode.simps(2)[of c cs] if_not_P[OF assms] if_P[OF True]
    by (simp del: utf8_encode.simps add: len_repl)
next
  case False
  show ?thesis
    unfolding utf8_encode.simps(2)[of c cs] if_not_P[OF assms] if_not_P[OF False]
    by (simp del: utf8_encode.simps add: len_unit)
qed

text \<open>\<open>Buffer.byteLength\<close> counts the bytes of the encoding.\<close>

lemma byteLength_utf8_encode: "byteLength s = length (utf8_encode s)"
proof (induction "length s" arbitrary: s rule: less_induct)
  case less
  show ?case
  proof (cases s)
    case Nil
    then show ?thesis by simp
  next
    case (Cons c cs)
    have IH: "byteLength cs = length (utf8_encode cs)"
      using less[of cs] Cons by simp
    show ?thesis
    proof (cases "0xD800 \<le> c \<and> c \<le> 0xDBFF")
      case high: True
      show ?thesis
      proof (cases cs)
        case Nil
        show ?thesis
          unfolding Cons byteLength_high[OF high] utf8_encode_high[OF high] Nil
          by (simp del: byteLength.simps utf8_encode.simps add: len_repl)
      next
        case tail: (Cons d ds)
        have IH': "byteLength ds = length (utf8_encode ds)"
          using less[of ds] Cons tail by simp
        show ?thesis
          unfolding Cons byteLength_high[OF high] utf8_encode_high[OF high]
          using IH IH' unfolding tail
          by (simp del: byteLength.simps utf8_encode.simps add: len_repl len_pair_code_point)
      qed
    next
      case False
      show ?thesis
        unfolding Cons byteLength_unit[OF False] utf8_encode_unit[OF False]
        using IH by simp
    qed
  qed
qed

text \<open>
  Scenario B of the specification: the home page of the small site, count 1. The body is
  two code units and three bytes.
\<close>

lemma scenario_B:
  "requestListener ex_app (ex_req ''/'') new_world
     = \<lparr>resp = \<lparr>statusCode = 200, statusMessage = ''OK'',
                 headers = [''content-length'' \<mapsto> HNum 3,
                            ''content-type'' \<mapsto> HStr ''text/html;charset=UTF-8'',
                            ''x-powered-by'' \<mapsto> HStr ''soya''],
                 headersSent = True, body = Some [0xE9, 0x31]\<rparr>,
        hydrated = True,
        trace = [Invoke 0, Invoke 1, StartRender, Render Discovery None, EndRender, Hydrate,
                 GetState, StartRender, Render Final (Some 1), EndRender]\<rparr>"
  by (simp add: ex_defs run_defs lower_names)

text \<open>
  The headers of the render result are set after \<open>Content-Length\<close> and \<open>Content-Type\<close>.
  A page whose render result names its own content type is answered with that type, not
  with \<open>text/html;charset=UTF-8\<close>, so C6 does not hold for every rendered response.
\<close>

theorem content_type_overridden:
  "body (resp (requestListener ex_json_app (ex_req ''/about'') new_world)) = Some [0x2D]
   \<and> headers (resp (requestListener ex_json_app (ex_req ''/about'') new_world)) ''content-type''
       = Some (HStr ''application/json'')
   \<and> headers (resp (requestListener ex_json_app (ex_req ''/about'') new_world)) ''content-type''
       \<noteq> Some (HStr ''text/html;charset=UTF-8'')"
  by (simp add: ex_defs run_defs lower_names)

text \<open>
  C6, amended. For every response that \<open>storeResolve\<close> completes, the body is the HTML
  of the final render; \<open>Content-Length\<close> is the number of bytes of its UTF-8 encoding
  and \<open>Content-Type\<close> is \<open>text/html;charset=UTF-8\<close>, each unless the render result's
  own headers have an entry of that name (names compared without case), in which case the
  last such entry is the header's value.
\<close>

theorem response_headers:
  assumes ok: "storeResolve app rr store cookies res dep w = (None, w')"
  shows "\<exists>html. contentRenderer res (routeArgs rr) (routeForPages app (pageName rr))
                  (clientConfig app)
                  (case store of None \<Rightarrow> None | Some s \<Rightarrow> Some (getState s (hydrated w))) dep
                = Inr html
           \<and> body (resp w') = Some html
           \<and> (''content-length'' \<notin> fst ` set (lowered (httpHeaders res)) \<longrightarrow>
                headers (resp w') ''content-length'' = Some (HNum (length (utf8_encode html))))
           \<and> (''content-type'' \<notin> fst ` set (lowered (httpHeaders res)) \<longrightarrow>
                headers (resp w') ''content-type'' = Some (HStr ''text/html;charset=UTF-8''))
           \<and> (\<forall>name \<in> {''content-length'', ''content-type''}.
                 name \<in> fst ` set (lowered (httpHeaders res)) \<longrightarrow>
                 headers (resp w') name = map_of (rev (lowered (httpHeaders res))) name)"
proof -
  from storeResolve_success[OF ok] obtain html where
    html: "contentRenderer res (routeArgs rr) (routeForPages app (pageName rr))
             (clientConfig app)
             (case store of None \<Rightarrow> None | Some s \<Rightarrow> Some (getState s (hydrated w))) dep
           = Inr html"
      "body (resp w') = Some html"
    and h: "headers (resp w') =
               (let h = (headers (resp w))(''content-length'' \<mapsto> HNum (byteLength html),
                                            ''content-type'' \<mapsto> HStr ''text/html;charset=UTF-8'')
                        ++ map_of (rev (lowered (httpHeaders res)))
                in if cookies \<noteq> [] then h(''set-cookie'' \<mapsto> HList cookies) else h)"
    by blast
  have absent: "headers (resp w') name
                  = ((headers (resp w))(''content-length'' \<mapsto> HNum (byteLength html),
                                         ''content-type'' \<mapsto> HStr ''text/html;charset=UTF-8'')) name"
    if "name \<notin> fst ` set (lowered (httpHeaders res))" "name \<noteq> ''set-cookie''" for name
  proof -
    have "headers (resp w') name
            = (((headers (resp w))(''content-length'' \<mapsto> HNum (byteLength html),
                                   ''content-type'' \<mapsto> HStr ''text/html;charset=UTF-8''))
               ++ map_of (rev (lowered (httpHeaders res)))) name"
      using that(2) by (simp add: h Let_def fun_upd_other del: fun_upd_apply)
    then show ?thesis
      unfolding map_add_absent[OF that(1)] .
  qed
  have present: "headers (resp w') name = map_of (rev (lowered (httpHeaders res))) name"
    if "name \<in> fst ` set (lowered (httpHeaders res))" "name \<noteq> ''set-cookie''" for name
  proof -
    have "headers (resp w') name
            = (((headers (resp w))(''content-length'' \<mapsto> HNum (byteLength html),
                                   ''content-type'' \<mapsto> HStr ''text/html;charset=UTF-8''))
               ++ map_of (rev (lowered (httpHeaders res)))) name"
      using that(2) by (simp add: h Let_def fun_upd_other del: fun_upd_apply)
    then show ?thesis
      unfolding map_add_present[OF that(1)] .
  qed
  have "''content-length'' \<notin> fst ` set (lowered (httpHeaders res)) \<longrightarrow>
          headers (resp w') ''content-length'' = Some (HNum (length (utf8_encode html)))"
    using absent[of "''content-length''"] by (simp add: byteLength_utf8_encode)
  moreover have "''content-type'' \<notin> fst ` set (lowered (httpHeaders res)) \<longrightarrow>
          headers (resp w') ''content-type'' = Some (HStr ''text/html;charset=UTF-8'')"
    using absent[of "''content-type''"] by simp
  moreover have "\<forall>name \<in> {''content-length'', ''content-type''}.
                 name \<in> fst ` set (lowered (httpHeaders res)) \<longrightarrow>
                 headers (resp w') name = map_of (rev (lowered (httpHeaders res))) name"
    using present by simp
  ultimately show ?thesis using html by blast
qed


lemma utf8_encode_example: "utf8_encode [0xE9, 0x31] = [0xC3, 0xA9, 0x31]"
  by code_simp

theorem response_headers_witness:
  "fst (storeResolve ex_app (ex_route ''about'') None [] ex_result [''about.js''] new_world) = None
   \<and> ''content-length'' \<notin> fst ` set (lowered (httpHeaders ex_result))
   \<and> ''content-type'' \<notin> fst ` set (lowered (httpHeaders ex_result))
   \<and> headers (resp (snd (storeResolve ex_app (ex_route ''about'') None [] ex_result
                             [''about.js''] new_world))) ''content-length''
       = Some (HNum 1)
   \<and> headers (resp (snd (storeResolve ex_app (ex_route ''about'') None [] ex_result
                             [''about.js''] new_world))) ''content-type''
       = Some (HStr ''text/html;charset=UTF-8'')
   \<and> fst (storeResolve ex_app (ex_route ''about'') None [] ex_json_result [''about.js''] new_world)
       = None
   \<and> ''content-type'' \<in> fst ` set (lowered (httpHeaders ex_json_result))
   \<and> headers (resp (snd (storeResolve ex_app (ex_route ''about'') None [] ex_json_result
                             [''about.js''] new_world))) ''content-type''
       = Some (HStr ''application/json'')"
proof -
  obtain w1 where
    run1: "storeResolve ex_app (ex_route ''about'') None [] ex_result [''about.js''] new_world
             = (None, w1)"
    by (simp add: ex_defs run_defs lower_names)
  obtain w2 where
    run2: "storeResolve ex_app (ex_route ''about'') None [] ex_json_result [''about.js''] new_world
             = (None, w2)"
    by (simp add: ex_defs run_defs lower_names)
  show ?thesis
    using response_headers [OF run1] response_headers [OF run2]
    by (simp add: ex_defs run_defs lower_names lowered_def)
qed


section \<open>The order of the handlers\<close>

lemma invoked_append [simp]: "invoked (t @ u) = invoked t @ invoked u"
  by (induction t rule: invoked.induct) simp_all

lemma invoked_handleError [simp]: "invoked (trace (handleError e w)) = invoked (trace w)"
  by (simp add: handleError_def)

lemma invoked_handlePromiseError [simp]:
  "invoked (trace (handlePromiseError v w)) = invoked (trace w)"
  by (cases "ensureError v") (simp_all add: handlePromiseError_def)

lemma invoked_storeResolve:
  "invoked (trace (snd (storeResolve app rr store cookies res dep w))) = invoked (trace w)"
proof (cases store)
  case None
  obtain thr w' where f: "storeResolve app rr None cookies res dep w = (thr, w')"
    by (cases "storeResolve app rr None cookies res dep w")
  from storeResolve_static_trace[OF f] f None show ?thesis by simp
next
  case (Some s)
  obtain thr w' where f: "storeResolve app rr (Some s) cookies res dep w = (thr, w')"
    by (cases "storeResolve app rr (Some s) cookies res dep w")
  from storeResolve_store_trace[OF f] f Some show ?thesis by auto
qed

lemma invoked_then_catch:
  assumes "\<And>w. invoked (trace (snd (f w))) = invoked (trace w)"
  shows "invoked (trace (then_catch p f w)) = invoked (trace w)"
proof (cases p)
  case Resolves
  obtain thr w' where f: "f w = (thr, w')" by (cases "f w")
  with assms[of w] have "invoked (trace w') = invoked (trace w)" by simp
  with Resolves f show ?thesis by (cases thr) (simp_all add: then_catch_def)
qed (simp_all add: then_catch_def)

lemma invoked_handleRenderResult:
  "invoked (trace (snd (handleRenderResult app rr store cookies res w))) = invoked (trace w)"
proof (cases "compileResult_pages app (pageName rr)")
  case None
  then show ?thesis by (simp add: handleRenderResult_def)
next
  case (Some dep)
  show ?thesis
  proof (cases store)
    case None
    with Some show ?thesis
      by (simp add: handleRenderResult_def invoked_then_catch invoked_storeResolve)
  next
    case st: (Some s)
    have "invoked (trace (then_catch (hydrate s)
            (\<lambda>w. storeResolve app rr (Some s) cookies res dep (w\<lparr>hydrated := True\<rparr>)) w2))
          = invoked (trace w2)" for w2
      by (rule invoked_then_catch) (simp add: invoked_storeResolve)
    with Some st show ?thesis
      by (auto simp: handleRenderResult_def Let_def split: sum.splits)
  qed
qed

lemma invoked_handle:
  "invoked (trace (snd (handle app req w))) = invoked (trace w)"
  by (auto simp: handle_def Let_def invoked_handleRenderResult split: option.splits sum.splits)


lemma pending_simps [simp]:
  "pending [] = 0"
  "pending ([] # stack) = pending stack"
  "pending ((SendResponse # acts) # stack) = pending (acts # stack)"
  "pending ((Throw e # acts) # stack) = pending (acts # stack)"
  "pending ((Proceed # acts) # stack) = Suc (pending (acts # stack))"
  "pending (frame # acts # stack) = count_list frame Proceed + pending (acts # stack)"
  by (simp_all add: pending_def)

lemma proceeds_stack: "proceeds frame \<Longrightarrow> stack_proceeds (frame # stack)"
  by (induction frame rule: proceeds.induct) simp_all

lemma chain_run:
  "\<exists>k. chain_ok app req stack index w (snd (run_chain app req stack index w)) k"
proof (induction app req stack index w rule: run_chain.induct)
  case (1 app req index w)
  have "chain_ok app req [] index w w index"
    by (simp add: chain_ok_def)
  then show ?case by auto
next
  case (2 app req stack index w)
  then show ?case by (simp add: chain_ok_def)
next
  case (3 app req acts stack index w)
  then show ?case by (simp add: chain_ok_def)
next
  case (4 app req e acts stack index w)
  have "chain_ok app req ((Throw e # acts) # stack) index w w index"
    by (simp add: chain_ok_def)
  then show ?case by auto
next
  case (5 app req acts stack index w)
  let ?mws = "middlewares app"
  let ?stack = "(Proceed # acts) # stack"
  show ?case
  proof (cases "index < length ?mws")
    case False
    with 5(3) obtain k where
      k: "chain_ok app req (acts # stack) (Suc index) w
            (snd (run_chain app req (acts # stack) (Suc index) w)) k"
      by blast
    from k False have "k = Suc index"
      by (auto simp: chain_ok_def)
    with k False have "chain_ok app req ?stack index w
        (snd (run_chain app req (acts # stack) (Suc index) w)) index"
      by (simp add: chain_ok_def)
    with False show ?thesis by auto
  next
    case inside: True
    show ?thesis
    proof (cases "?mws ! index")
      case (Compiler_mw f)
      let ?w1 = "emit (Invoke index) w"
      let ?w' = "snd (run_chain app req (f req # acts # stack) (Suc index) ?w1)"
      from 5(1)[OF inside Compiler_mw] obtain k where
        k: "chain_ok app req (f req # acts # stack) (Suc index) ?w1 ?w' k"
        by blast
      have m: "Compiler_mw f \<in> set ?mws"
        using inside Compiler_mw nth_mem by metis
      have "chain_ok app req ?stack index w ?w' k"
        unfolding chain_ok_def
      proof (intro conjI impI allI)
        show "index \<le> k" using k by (simp add: chain_ok_def)
        show "k \<le> length ?mws \<or> k = index"
          using k inside by (auto simp: chain_ok_def)
        show "invoked (trace ?w') = invoked (trace w) @ [index..<k]"
          using k by (simp add: chain_ok_def upt_conv_Cons)
      next
        assume disc: "(\<forall>m\<in>set ?mws. calls_next req m \<le> 1) \<and> pending ?stack \<le> 1"
        then have rest: "pending (acts # stack) = 0" by simp
        have once: "count_list (f req) Proceed \<le> 1"
          using disc m by fastforce
        from k disc rest once have
          a: "Suc index < k \<longrightarrow> count_list (f req) Proceed = 1" and
          b: "\<forall>i. Suc index \<le> i \<and> Suc i < k \<longrightarrow> calls_next req (?mws ! i) = 1"
          by (simp_all add: chain_ok_def)
        show "pending ?stack = 1" if "index < k"
          using rest by simp
        show "calls_next req (?mws ! i) = 1" if i: "index \<le> i \<and> Suc i < k" for i
        proof (cases "i = index")
          case True
          with i a Compiler_mw show ?thesis by simp
        next
          case False
          with i b show ?thesis by simp
        qed
      next
        show "index < k" if "stack_proceeds ?stack \<and> index < length ?mws"
          using k by (simp add: chain_ok_def)
        show "Suc i < k"
          if i: "index \<le> i \<and> i < k \<and> Suc i < length ?mws \<and> reaches_next req (?mws ! i)" for i
        proof (cases "i = index")
          case True
          with i Compiler_mw have "stack_proceeds (f req # acts # stack)"
            by (simp add: proceeds_stack)
          with k i True show ?thesis by (simp add: chain_ok_def)
        next
          case False
          with i have "Suc index \<le> i" by simp
          with k i show ?thesis by (simp add: chain_ok_def)
        qed
      qed
      with inside Compiler_mw show ?thesis by auto
    next
      case Soya_handle
      let ?w1 = "emit (Invoke index) w"
      obtain thr w2 where h: "handle app req ?w1 = (thr, w2)"
        by (cases "handle app req ?w1")
      have inv2: "invoked (trace w2) = invoked (trace w) @ [index]"
        using invoked_handle[of app req ?w1] h by simp
      show ?thesis
      proof (cases thr)
        case (Some e)
        have "chain_ok app req ?stack index w w2 (Suc index)"
          using inside inv2 Soya_handle by (auto simp: chain_ok_def le_less_Suc_eq)
        with inside Soya_handle h Some show ?thesis by auto
      next
        case None
        let ?w' = "snd (run_chain app req (acts # stack) (Suc index) w2)"
        from 5(2)[OF inside Soya_handle h[symmetric] None] obtain k where
          k: "chain_ok app req (acts # stack) (Suc index) w2 ?w' k"
          by blast
        have "chain_ok app req ?stack index w ?w' k"
          unfolding chain_ok_def
        proof (intro conjI impI allI)
          show "index \<le> k" using k by (simp add: chain_ok_def)
          show "k \<le> length ?mws \<or> k = index"
            using k inside by (auto simp: chain_ok_def)
          show "invoked (trace ?w') = invoked (trace w) @ [index..<k]"
            using k inv2 by (simp add: chain_ok_def upt_conv_Cons)
        next
          assume disc: "(\<forall>m\<in>set ?mws. calls_next req m \<le> 1) \<and> pending ?stack \<le> 1"
          then have rest: "pending (acts # stack) = 0" by simp
          with k disc have last: "k = Suc index"
            by (auto simp: chain_ok_def)
          show "pending ?stack = 1" if "index < k"
            using rest by simp
          show "calls_next req (?mws ! i) = 1" if "index \<le> i \<and> Suc i < k" for i
            using that last by simp
        next
          show "index < k" if "stack_proceeds ?stack \<and> index < length ?mws"
            using k by (simp add: chain_ok_def)
          show "Suc i < k"
            if i: "index \<le> i \<and> i < k \<and> Suc i < length ?mws \<and> reaches_next req (?mws ! i)" for i
          proof (cases "i = index")
            case True
            with i Soya_handle show ?thesis by simp
          next
            case False
            with i have "Suc index \<le> i" by simp
            with k i show ?thesis by (simp add: chain_ok_def)
          qed
        qed
        with inside Soya_handle h None show ?thesis by auto
      qed
    qed
  qed
qed


lemma start_middlewares:
  "middlewares (start precompiled cms a) = map Compiler_mw cms @ [Soya_handle]"
  by (cases precompiled) (simp_all add: start_def createServer_def Let_def)

text \<open>
  A handler that calls \<open>next\<close> twice invokes two handlers: here the first handler calls
  it twice, the second never, and \<open>handle\<close>, the third, runs all the same. So a handler
  that does not call \<open>next\<close> does not always halt the chain, and a call of \<open>next\<close> does
  not always invoke the handler after the caller, as C8 says.
\<close>

theorem second_next_skips_silent_handler:
  "calls_next (ex_req ''/about'') (middlewares ex_chain_app ! 1) = 0
   \<and> invoked (trace (snd (runMiddleware ex_chain_app (ex_req ''/about'') new_world))) = [0, 1, 2]
   \<and> trace (snd (runMiddleware ex_chain_app (ex_req ''/about'') new_world))
       = [Invoke 0, Invoke 1, Invoke 2, Render Final None]"
  by (simp add: ex_chain_app_def ex_defs run_defs lower_names)

text \<open>
  C8, amended. For every request and every list of handlers: the handlers invoked are the
  first \<open>k\<close> of the list, in list order and each once, and the first handler is invoked
  when there is one. A call of \<open>next\<close> made while \<open>index\<close> is inside the list invokes the
  handler at \<open>index\<close>, the first not yet invoked, with the request and an \<open>index\<close> one
  higher, the caller going on when that handler returns; whatever else is invoked before
  the call returns are the handlers after it, in order. An invoked handler that gets to
  call \<open>next\<close> has the handler after it invoked. When no handler calls \<open>next\<close> more than
  once, every invoked handler but the last one invoked has called \<open>next\<close>, so a handler
  that does not call it halts the chain. \<open>start\<close> puts \<open>handle\<close> last, after the
  compiler's handlers.
\<close>

theorem chain_order:
  "(\<exists>k \<le> length (middlewares app).
      invoked (trace (snd (runMiddleware app req w))) = invoked (trace w) @ [0..<k]
      \<and> (middlewares app \<noteq> [] \<longrightarrow> 0 < k)
      \<and> (\<forall>i. i < k \<and> Suc i < length (middlewares app)
               \<and> reaches_next req (middlewares app ! i) \<longrightarrow> Suc i < k)
      \<and> ((\<forall>m\<in>set (middlewares app). calls_next req m \<le> 1) \<longrightarrow>
           (\<forall>i. Suc i < k \<longrightarrow> calls_next req (middlewares app ! i) = 1)
           \<and> (\<forall>i. i < k \<and> calls_next req (middlewares app ! i) = 0 \<longrightarrow> k = Suc i)))
   \<and> (index < length (middlewares app) \<longrightarrow>
        (\<exists>j. index < j \<and> j \<le> length (middlewares app)
           \<and> invoked (trace (snd (run_chain app req ((Proceed # acts) # stack) index w0)))
               = invoked (trace w0) @ [index..<j]))
   \<and> (index < length (middlewares app) \<and> middlewares app ! index = Compiler_mw f \<longrightarrow>
        run_chain app req ((Proceed # acts) # stack) index w0
          = run_chain app req (f req # acts # stack) (Suc index) (emit (Invoke index) w0))
   \<and> (index < length (middlewares app) \<and> middlewares app ! index = Soya_handle \<longrightarrow>
        run_chain app req ((Proceed # acts) # stack) index w0
          = (case handle app req (emit (Invoke index) w0) of
               (Some e, w') \<Rightarrow> (Some e, w')
             | (None, w') \<Rightarrow> run_chain app req (acts # stack) (Suc index) w'))
   \<and> middlewares (start precompiled cms a) = map Compiler_mw cms @ [Soya_handle]
   \<and> last (middlewares (start precompiled cms a)) = Soya_handle"
proof (intro conjI)
  let ?mws = "middlewares app"
  obtain k where k: "chain_ok app req [[Proceed]] 0 w (snd (runMiddleware app req w)) k"
    using chain_run[of app req "[[Proceed]]" 0 w] by (auto simp: runMiddleware_def)
  then have bound: "k \<le> length ?mws"
    and order: "invoked (trace (snd (runMiddleware app req w))) = invoked (trace w) @ [0..<k]"
    and first: "?mws \<noteq> [] \<longrightarrow> 0 < k"
    and forward: "\<forall>i. i < k \<and> Suc i < length ?mws \<and> reaches_next req (?mws ! i) \<longrightarrow> Suc i < k"
    and backward: "(\<forall>m\<in>set ?mws. calls_next req m \<le> 1) \<longrightarrow>
           (\<forall>i. Suc i < k \<longrightarrow> calls_next req (?mws ! i) = 1)"
    by (auto simp: chain_ok_def)
  have halts: "(\<forall>m\<in>set ?mws. calls_next req m \<le> 1) \<longrightarrow>
           (\<forall>i. i < k \<and> calls_next req (?mws ! i) = 0 \<longrightarrow> k = Suc i)"
  proof (intro impI allI)
    fix i
    assume disc: "\<forall>m\<in>set ?mws. calls_next req m \<le> 1"
      and i: "i < k \<and> calls_next req (?mws ! i) = 0"
    have "\<not> Suc i < k"
    proof
      assume "Suc i < k"
      with backward disc have "calls_next req (?mws ! i) = 1" by blast
      with i show False by simp
    qed
    with i show "k = Suc i" by simp
  qed
  from bound order first forward backward halts
  show "\<exists>k \<le> length ?mws.
      invoked (trace (snd (runMiddleware app req w))) = invoked (trace w) @ [0..<k]
      \<and> (?mws \<noteq> [] \<longrightarrow> 0 < k)
      \<and> (\<forall>i. i < k \<and> Suc i < length ?mws \<and> reaches_next req (?mws ! i) \<longrightarrow> Suc i < k)
      \<and> ((\<forall>m\<in>set ?mws. calls_next req m \<le> 1) \<longrightarrow>
           (\<forall>i. Suc i < k \<longrightarrow> calls_next req (?mws ! i) = 1)
           \<and> (\<forall>i. i < k \<and> calls_next req (?mws ! i) = 0 \<longrightarrow> k = Suc i))"
    by blast
  show "index < length ?mws \<longrightarrow>
        (\<exists>j. index < j \<and> j \<le> length ?mws
           \<and> invoked (trace (snd (run_chain app req ((Proceed # acts) # stack) index w0)))
               = invoked (trace w0) @ [index..<j])"
  proof
    assume inside: "index < length ?mws"
    obtain j where "chain_ok app req ((Proceed # acts) # stack) index w0
        (snd (run_chain app req ((Proceed # acts) # stack) index w0)) j"
      using chain_run[of app req "(Proceed # acts) # stack" index w0] by blast
    with inside have "index < j \<and> j \<le> length ?mws
        \<and> invoked (trace (snd (run_chain app req ((Proceed # acts) # stack) index w0)))
            = invoked (trace w0) @ [index..<j]"
      by (auto simp: chain_ok_def)
    then show "\<exists>j. index < j \<and> j \<le> length ?mws
        \<and> invoked (trace (snd (run_chain app req ((Proceed # acts) # stack) index w0)))
            = invoked (trace w0) @ [index..<j]"
      by blast
  qed
  show "index < length ?mws \<and> ?mws ! index = Compiler_mw f \<longrightarrow>
        run_chain app req ((Proceed # acts) # stack) index w0
          = run_chain app req (f req # acts # stack) (Suc index) (emit (Invoke index) w0)"
    by simp
  show "index < length ?mws \<and> ?mws ! index = Soya_handle \<longrightarrow>
        run_chain app req ((Proceed # acts) # stack) index w0
          = (case handle app req (emit (Invoke index) w0) of
               (Some e, w') \<Rightarrow> (Some e, w')
             | (None, w') \<Rightarrow> run_chain app req (acts # stack) (Suc index) w')"
    by simp
  show "middlewares (start precompiled cms a) = map Compiler_mw cms @ [Soya_handle]"
    by (rule start_middlewares)
  then show "last (middlewares (start precompiled cms a)) = Soya_handle"
    by simp
qed

theorem chain_order_witness:
  "middlewares ex_app \<noteq> []
   \<and> calls_next (ex_req ''/'') (middlewares ex_app ! 0) \<le> 1
   \<and> calls_next (ex_req ''/'') (middlewares ex_app ! 1) \<le> 1
   \<and> reaches_next (ex_req ''/'') (middlewares ex_app ! 0)
   \<and> invoked (trace (snd (runMiddleware ex_app (ex_req ''/'') new_world))) = [0..<2]
   \<and> calls_next (ex_req ''/'') (middlewares ex_app ! 0) = 1
   \<and> calls_next (ex_req ''/'') (middlewares ex_app ! 1) = 0
   \<and> (1::nat) < length (middlewares ex_app)
   \<and> middlewares ex_app ! 1 = Soya_handle
   \<and> invoked (trace (snd (run_chain ex_app (ex_req ''/'') [[Proceed]] 1 new_world))) = [1..<2]
   \<and> middlewares ex_app ! 0 = Compiler_mw (\<lambda>req. [Proceed])
   \<and> run_chain ex_app (ex_req ''/'') [[Proceed]] 0 new_world
       = run_chain ex_app (ex_req ''/'') [[Proceed], []] 1 (emit (Invoke 0) new_world)
   \<and> middlewares (start None [\<lambda>req. [Proceed]] ex_app)
       = [Compiler_mw (\<lambda>req. [Proceed]), Soya_handle]"
proof -
  have "invoked (trace (snd (runMiddleware ex_app (ex_req ''/'') new_world))) = [0, 1]"
    by (simp add: ex_defs run_defs lower_names)
  moreover
  have "invoked (trace (snd (run_chain ex_app (ex_req ''/'') [[Proceed]] 1 new_world))) = [1]"
    by (simp add: ex_defs run_defs lower_names)
  ultimately show ?thesis
    using chain_order
      [where app = ex_app and req = "ex_req ''/''" and w = new_world and index = 1
         and acts = "[]" and stack = "[]" and ?w0.0 = new_world
         and precompiled = None and cms = "[\<lambda>req. [Proceed]]" and a = ex_app]
      chain_order
      [where app = ex_app and req = "ex_req ''/''" and w = new_world and index = 0
         and acts = "[]" and stack = "[]" and ?w0.0 = new_world and f = "\<lambda>req. [Proceed]"
         and precompiled = None and cms = "[\<lambda>req. [Proceed]]" and a = ex_app]
    by (simp add: ex_app_def upt_conv_Cons)
qed

section \<open>Subscriptions of a component\<close>

lemma unsubscribe_empty:
  "soyaUnsubscribe c = Map.empty \<Longrightarrow> unsubscribe stateName (c, st) = (c, st)"
  by (simp add: unsubscribe_def)

lemma subscribe_empty:
  assumes "soyaUnsubscribe c = Map.empty"
  shows "subscribe (c, st) (seg, q, sl, h)
           = (c\<lparr>unsubscribe_properties := (unsubscribe_properties c)(seg \<mapsto> nextId st),
                 state := (state c)(sl \<mapsto> queryState st seg q)\<rparr>,
              st\<lparr>subscriptions := subscriptions st @
                    [\<lparr>sub_id = nextId st, owner = cid c, segmentId = seg, query = q,
                      slot = sl, hydration = h\<rparr>],
                 nextId := Suc (nextId st)\<rparr>)"
  by (simp add: subscribe_def unsubscribe_empty[OF assms] store_subscribe_def)

text \<open>Nothing ever writes \<open>__soyaUnsubscribe\<close>: it stays empty, whatever is subscribed.\<close>

lemma foldl_subscribe_empty:
  assumes "soyaUnsubscribe c = Map.empty"
  shows "\<exists>c' new. foldl subscribe (c, st) calls
                     = (c', st\<lparr>subscriptions := subscriptions st @ new,
                                nextId := nextId st + length calls\<rparr>)
           \<and> soyaUnsubscribe c' = Map.empty \<and> cid c' = cid c \<and> props c' = props c
           \<and> map declared new = calls \<and> list_all (\<lambda>s. owner s = cid c) new"
  using assms
proof (induction calls arbitrary: c st)
  case Nil
  then show ?case by simp
next
  case (Cons call calls)
  obtain seg q sl h where call: "call = (seg, q, sl, h)"
    by (cases call) auto
  let ?c1 = "c\<lparr>unsubscribe_properties := (unsubscribe_properties c)(seg \<mapsto> nextId st),
                 state := (state c)(sl \<mapsto> queryState st seg q)\<rparr>"
  let ?s = "\<lparr>sub_id = nextId st, owner = cid c, segmentId = seg, query = q,
             slot = sl, hydration = h\<rparr>"
  let ?st1 = "st\<lparr>subscriptions := subscriptions st @ [?s], nextId := Suc (nextId st)\<rparr>"
  have step: "subscribe (c, st) call = (?c1, ?st1)"
    unfolding call by (rule subscribe_empty[OF Cons.prems])
  have "soyaUnsubscribe ?c1 = Map.empty"
    using Cons.prems by simp
  from Cons.IH[OF this, of ?st1] obtain c' new where
    r: "foldl subscribe (?c1, ?st1) calls
          = (c', ?st1\<lparr>subscriptions := subscriptions ?st1 @ new,
                       nextId := nextId ?st1 + length calls\<rparr>)"
       "soyaUnsubscribe c' = Map.empty" "cid c' = cid ?c1" "props c' = props ?c1"
       "map declared new = calls" "list_all (\<lambda>s. owner s = cid ?c1) new"
    by blast
  have "foldl subscribe (c, st) (call # calls)
          = (c', st\<lparr>subscriptions := subscriptions st @ (?s # new),
                     nextId := nextId st + length (call # calls)\<rparr>)"
    using r(1) step by simp
  moreover have "map declared (?s # new) = call # calls"
    using r(5) call by (simp add: declared_def)
  moreover have "list_all (\<lambda>s. owner s = cid c) (?s # new)"
    using r(6) by simp
  ultimately show ?case
    using r(2,3,4) by (intro exI[of _ c'] exI[of _ "?s # new"]) simp
qed


lemma subscribe_ids:
  assumes "subscribe (c, st) call = (c', st')"
  shows "cid c' = cid c \<and> nextId st \<le> nextId st'
         \<and> (\<forall>s\<in>set (subscriptions st'). s \<in> set (subscriptions st) \<or> nextId st \<le> sub_id s)"
  using assms
  by (cases call)
     (auto simp: subscribe_def unsubscribe_def store_subscribe_def ref_unsubscribe_def
           split: option.splits)

lemma foldl_subscribe_ids:
  assumes "foldl subscribe (c, st) calls = (c', st')"
  shows "cid c' = cid c \<and> nextId st \<le> nextId st'
         \<and> (\<forall>s\<in>set (subscriptions st'). s \<in> set (subscriptions st) \<or> nextId st \<le> sub_id s)"
  using assms
proof (induction calls arbitrary: c st)
  case Nil
  then show ?case by simp
next
  case (Cons call calls)
  obtain c1 st1 where step: "subscribe (c, st) call = (c1, st1)"
    by (cases "subscribe (c, st) call")
  from Cons.prems step have rest: "foldl subscribe (c1, st1) calls = (c', st')"
    by simp
  note a = subscribe_ids[OF step] and b = Cons.IH[OF rest]
  show ?case
  proof (intro conjI ballI)
    show "cid c' = cid c" using a b by simp
    show "nextId st \<le> nextId st'" using a b by simp
    fix s assume "s \<in> set (subscriptions st')"
    with b have "s \<in> set (subscriptions st1) \<or> nextId st1 \<le> sub_id s" by blast
    with a show "s \<in> set (subscriptions st) \<or> nextId st \<le> sub_id s" by fastforce
  qed
qed

text \<open>
  C1. \<open>subscribe\<close> begins with \<open>this.unsubscribe(stateName)\<close>, which looks the slot up
  in \<open>__soyaUnsubscribe\<close>; but it stores the function that removes the new subscription
  as a property of the function \<open>this.unsubscribe\<close>, under the segment id, and never in
  \<open>__soyaUnsubscribe\<close>. So nothing is ever found there: a component that subscribes
  its slot \<open>user\<close> to the query 7 and then to the query 8 ends with two active
  subscriptions for that slot, one for each query, where the claim allows one; the slot
  holds the state of the query 8, and the subscription to the query 7 still writes it.
\<close>

theorem subscribe_twice_leaks:
  "map declared
     (active 1 ''user''
        (snd (subscribe (subscribe (new_Component 1 Map.empty, ex_redux)
                           (''users'', 7, ''user'', ''load''))
                (''users'', 8, ''user'', ''load''))))
     = [(''users'', 7, ''user'', ''load''), (''users'', 8, ''user'', ''load'')]
   \<and> state
         (fst (subscribe (subscribe (new_Component 1 Map.empty, ex_redux)
                            (''users'', 7, ''user'', ''load''))
                 (''users'', 8, ''user'', ''load''))) ''user''
       = Some 8
   \<and> soyaUnsubscribe
         (fst (subscribe (subscribe (new_Component 1 Map.empty, ex_redux)
                            (''users'', 7, ''user'', ''load''))
                 (''users'', 8, ''user'', ''load''))) ''user''
       = None
   \<and> unsubscribe_properties
         (fst (subscribe (subscribe (new_Component 1 Map.empty, ex_redux)
                            (''users'', 7, ''user'', ''load''))
                 (''users'', 8, ''user'', ''load''))) ''users''
       = Some 1"
  by (simp add: subscribe_def unsubscribe_def store_subscribe_def new_Component_def ex_redux_def
                active_def declared_def)

lemma store_unsubscribe_owned [simp]:
  "filter (\<lambda>s. owner s = i) (subscriptions (store_unsubscribe i st)) = []"
  "filter (\<lambda>s. owner s \<noteq> i) (subscriptions (store_unsubscribe i st))
     = filter (\<lambda>s. owner s \<noteq> i) (subscriptions st)"
  "nextId (store_unsubscribe i st) = nextId st"
  by (simp_all add: store_unsubscribe_def)

text \<open>
  Unmounting removes every subscription the component owns, and doing it again changes
  nothing.
\<close>

lemma componentWillUnmount_clears:
  "filter (\<lambda>s. owner s = cid c) (subscriptions (snd (componentWillUnmount (c, st)))) = []
   \<and> componentWillUnmount (componentWillUnmount (c, st)) = componentWillUnmount (c, st)"
  by (simp add: componentWillUnmount_def store_unsubscribe_def)

text \<open>
  C5. The predicate is the component's own \<open>shouldSubscriptionsUpdate\<close>, or by default
  the negation of the shallow comparison, applied to the connected props of the current
  and of the next props. When it says that nothing is to be updated, the component and
  the store stay as they are. Otherwise the result is that of \<open>unsubscribe(this)\<close> on
  the store followed by the component's \<open>subscribeQueries\<close> on the next connected props:
  every subscription the component owns afterwards was made by this run, and (the
  component's \<open>__soyaUnsubscribe\<close> being empty, as it always is) these are the declared
  ones, in order, the subscriptions of other components being left alone.
\<close>

theorem componentWillReceiveProps_policy:
  fixes isEqualShallow :: "'v props \<Rightarrow> 'v props \<Rightarrow> bool"
    and own :: "('v props \<Rightarrow> 'v props \<Rightarrow> bool) option"
    and subscribeQueries :: "'v props \<Rightarrow> 'q subscribe_call list"
    and nextProps :: "'v props"
    and c :: "'v component"
    and st :: "('q, 'v) reduxStore"
  defines "should \<equiv> connect_shouldSubscriptionsUpdate isEqualShallow own"
  defines "after \<equiv> componentWillReceiveProps should subscribeQueries nextProps (c, st)"
  shows "(own = None \<longrightarrow> should = (\<lambda>p n. \<not> isEqualShallow p n))
     \<and> (\<not> should (connectedProps c (props c)) (connectedProps c nextProps) \<longrightarrow> after = (c, st))
     \<and> (should (connectedProps c (props c)) (connectedProps c nextProps) \<longrightarrow>
          after = foldl subscribe (c, store_unsubscribe (cid c) st)
                    (subscribeQueries (connectedProps c nextProps))
          \<and> (\<forall>s\<in>set (subscriptions (snd after)). owner s = cid c \<longrightarrow> nextId st \<le> sub_id s)
          \<and> (soyaUnsubscribe c = Map.empty \<longrightarrow>
                map declared (filter (\<lambda>s. owner s = cid c) (subscriptions (snd after)))
                  = subscribeQueries (connectedProps c nextProps)
                \<and> filter (\<lambda>s. owner s \<noteq> cid c) (subscriptions (snd after))
                  = filter (\<lambda>s. owner s \<noteq> cid c) (subscriptions st)))"
proof (intro conjI impI)
  assume "own = None"
  then show "should = (\<lambda>p n. \<not> isEqualShallow p n)"
    by (auto simp: should_def connect_shouldSubscriptionsUpdate_def
                   defaultShouldSubcriptionsUpdate_def fun_eq_iff)
next
  assume "\<not> should (connectedProps c (props c)) (connectedProps c nextProps)"
  then show "after = (c, st)"
    by (simp add: after_def componentWillReceiveProps_def)
next
  let ?calls = "subscribeQueries (connectedProps c nextProps)"
  let ?st0 = "store_unsubscribe (cid c) st"
  assume upd: "should (connectedProps c (props c)) (connectedProps c nextProps)"
  then show run: "after = foldl subscribe (c, ?st0) ?calls"
    by (simp add: after_def componentWillReceiveProps_def)
  obtain c' st' where r: "foldl subscribe (c, ?st0) ?calls = (c', st')"
    by (cases "foldl subscribe (c, ?st0) ?calls")
  note ids = foldl_subscribe_ids[OF r]
  show "\<forall>s\<in>set (subscriptions (snd after)). owner s = cid c \<longrightarrow> nextId st \<le> sub_id s"
  proof (intro ballI impI)
    fix s assume s: "s \<in> set (subscriptions (snd after))" "owner s = cid c"
    then have "s \<in> set (subscriptions ?st0) \<or> nextId ?st0 \<le> sub_id s"
      using ids run r by simp
    moreover have "s \<notin> set (subscriptions ?st0)"
      using s(2) by (simp add: store_unsubscribe_def)
    ultimately show "nextId st \<le> sub_id s" by simp
  qed
  {
    assume empty: "soyaUnsubscribe c = Map.empty"
    from foldl_subscribe_empty[OF empty, of ?st0 ?calls] obtain c'' new where
      n: "foldl subscribe (c, ?st0) ?calls
            = (c'', ?st0\<lparr>subscriptions := subscriptions ?st0 @ new,
                         nextId := nextId ?st0 + length ?calls\<rparr>)"
         "map declared new = ?calls" "list_all (\<lambda>s. owner s = cid c) new"
      by blast
    have own: "filter (\<lambda>s. owner s = cid c) new = new"
      and others: "filter (\<lambda>s. owner s \<noteq> cid c) new = []"
      using n(3) by (auto simp: list_all_iff filter_id_conv filter_empty_conv)
    show "map declared (filter (\<lambda>s. owner s = cid c) (subscriptions (snd after))) = ?calls"
      using run n(1,2) own by simp
    show "filter (\<lambda>s. owner s \<noteq> cid c) (subscriptions (snd after))
            = filter (\<lambda>s. owner s \<noteq> cid c) (subscriptions st)"
      using run n(1) others by simp
  }
qed


lemmas connect_defs =
  componentWillReceiveProps_def subscribe_def unsubscribe_def store_subscribe_def
  store_unsubscribe_def ref_unsubscribe_def new_Component_def connectedProps_def
  connect_shouldSubscriptionsUpdate_def defaultShouldSubcriptionsUpdate_def
  ex_redux_def ex_subscribeQueries_def ex_shouldSubscriptionsUpdate_def ex_mounted_def
  declared_def active_def

theorem componentWillReceiveProps_policy_witness:
  "\<not> ex_shouldSubscriptionsUpdate
        (connectedProps (fst ex_mounted) (props (fst ex_mounted)))
        (connectedProps (fst ex_mounted) [''id'' \<mapsto> Given 7])
   \<and> componentWillReceiveProps ex_shouldSubscriptionsUpdate ex_subscribeQueries
         [''id'' \<mapsto> Given 7] ex_mounted
       = ex_mounted
   \<and> ex_shouldSubscriptionsUpdate
        (connectedProps (fst ex_mounted) (props (fst ex_mounted)))
        (connectedProps (fst ex_mounted) [''id'' \<mapsto> Given 8])
   \<and> soyaUnsubscribe (fst ex_mounted) = Map.empty
   \<and> map sub_id (subscriptions (snd ex_mounted)) = [0]
   \<and> map declared (subscriptions (snd ex_mounted)) = [(''users'', 7, ''user'', ''load'')]
   \<and> map sub_id
         (subscriptions (snd (componentWillReceiveProps ex_shouldSubscriptionsUpdate
            ex_subscribeQueries [''id'' \<mapsto> Given 8] ex_mounted)))
       = [1]
   \<and> map declared
         (subscriptions (snd (componentWillReceiveProps ex_shouldSubscriptionsUpdate
            ex_subscribeQueries [''id'' \<mapsto> Given 8] ex_mounted)))
       = [(''users'', 8, ''user'', ''load'')]"
proof -
  have m: "ex_mounted = (fst ex_mounted, snd ex_mounted)"
    by simp
  note same = componentWillReceiveProps_policy
    [of "Some ex_shouldSubscriptionsUpdate" "\<lambda>p n. True" "fst ex_mounted" "[''id'' \<mapsto> Given 7]"
        ex_subscribeQueries "snd ex_mounted"]
  note changed = componentWillReceiveProps_policy
    [of "Some ex_shouldSubscriptionsUpdate" "\<lambda>p n. True" "fst ex_mounted" "[''id'' \<mapsto> Given 8]"
        ex_subscribeQueries "snd ex_mounted"]
  show ?thesis
    using same changed
    by (simp add: connect_defs)
qed


end
